theory Spec2Isabelle
  imports Main "HOL-Library.Word" "HOL-Library.AList" "HOL-Library.Char_ord"
    "HOL-Library.List_Lexorder" "HOL-Library.Multiset"
begin

unbundle bit_operations_syntax

section \<open>Go values shared by both files\<close>

text \<open>
  Bytes are 8-bit words, \<open>uint64\<close> is a 64-bit word (unsigned comparison, wrap-around
  arithmetic), Go's \<open>int\<close> and \<open>int64\<close> are integers.  A Go \<open>error\<close> is either built by
  \<open>fmt.Errorf\<close>/\<open>errors.New\<close> from a message, or comes from the operating system with an
  error number.  \<open>nil\<close> errors are \<open>None\<close>.
\<close>

type_synonym byte = "8 word"
type_synonym uint64 = "64 word"

datatype errno = EEXIST | ENOTEMPTY | ENOENT | ENOTDIR | EISDIR | EIO | ENOSPC | EMFILE

datatype error = Errorf string | Errno errno | Panic string

fun errno_msg :: "errno \<Rightarrow> string" where
  "errno_msg EEXIST = ''file exists''"
| "errno_msg ENOTEMPTY = ''directory not empty''"
| "errno_msg ENOENT = ''no such file or directory''"
| "errno_msg ENOTDIR = ''not a directory''"
| "errno_msg EISDIR = ''is a directory''"
| "errno_msg EIO = ''input/output error''"
| "errno_msg ENOSPC = ''no space left on device''"
| "errno_msg EMFILE = ''too many open files''"

text \<open>\<open>err.Error()\<close>, which is what the verb \<open>%v\<close> prints.\<close>

fun Error :: "error \<Rightarrow> string" where
  "Error (Errorf s) = s"
| "Error (Errno e) = errno_msg e"
| "Error (Panic s) = s"

fun os_IsExist :: "error \<Rightarrow> bool" where
  "os_IsExist (Errno e) = (e = EEXIST \<or> e = ENOTEMPTY)"
| "os_IsExist (Errorf s) = False"
| "os_IsExist (Panic s) = False"

definition ErrClosed :: error where
  "ErrClosed = Errorf ''file already closed''"

section \<open>tcp_transport.go\<close>

text \<open>
  \<open>net.IP\<close> is a byte slice; \<open>nil\<close> is \<open>None\<close>.  \<open>net.Addr\<close> is an interface: the
  model distinguishes \<open>*net.TCPAddr\<close> from every other implementation, which is all
  the type assertion in \<open>newTCPTransport\<close> looks at.
\<close>

record TCPAddr =
  IP :: "byte list option"
  Port :: int
  Zone :: string

datatype net_Addr = TCP TCPAddr | NonTCP string string

definition v4InV6Prefix :: "byte list" where
  "v4InV6Prefix = [0, 0, 0, 0, 0, 0, 0, 0, 0, 0, 255, 255]"

definition IPv4zero :: "byte list" where
  "IPv4zero = v4InV6Prefix @ [0, 0, 0, 0]"

definition IPv6unspecified :: "byte list" where
  "IPv6unspecified = [0, 0, 0, 0, 0, 0, 0, 0, 0, 0, 0, 0, 0, 0, 0, 0]"

text \<open>\<open>func (ip IP) Equal(x IP) bool\<close> of package net.\<close>

definition IP_Equal :: "byte list \<Rightarrow> byte list \<Rightarrow> bool" where
  "IP_Equal ip x =
     (if length ip = length x then ip = x
      else if length ip = 4 \<and> length x = 16 then take 12 x = v4InV6Prefix \<and> ip = drop 12 x
      else if length ip = 16 \<and> length x = 4 then take 12 ip = v4InV6Prefix \<and> drop 12 ip = x
      else False)"

definition IsUnspecified :: "byte list \<Rightarrow> bool" where
  "IsUnspecified ip = (IP_Equal ip IPv4zero \<or> IP_Equal ip IPv6unspecified)"

text \<open>
  A bound \<open>*net.TCPListener\<close>: its local address, always a \<open>*net.TCPAddr\<close>, and
  whether \<open>Close\<close> has been called on it.
\<close>

record TCPListener =
  laddr :: TCPAddr
  lclosed :: bool

record TCPStreamLayer =
  advertise :: "net_Addr option"
  listener :: TCPListener

definition errNotAdvertisable :: error where
  "errNotAdvertisable = Errorf ''local bind address is not advertisable''"

definition errNotTCP :: error where
  "errNotTCP = Errorf ''local address is not a TCP address''"

text \<open>\<open>func (t *TCPStreamLayer) Addr() net.Addr\<close>\<close>

definition Addr :: "TCPStreamLayer \<Rightarrow> net_Addr" where
  "Addr t = (case advertise t of Some a \<Rightarrow> a | None \<Rightarrow> TCP (laddr (listener t)))"

definition list_Close :: "TCPListener \<Rightarrow> TCPListener" where
  "list_Close l = l\<lparr>lclosed := True\<rparr>"

text \<open>
  \<open>newTCPTransport\<close>.  \<open>net.Listen("tcp", bindAddr)\<close> is the environment's: its outcome
  for each bind address is the parameter \<open>net_Listen\<close>.  The result is the returned pair
  (transport or error) together with the listener as the call leaves it, when one was
  bound.
\<close>

definition newTCPTransport ::
  "(string \<Rightarrow> error + TCPListener) \<Rightarrow> string \<Rightarrow> net_Addr option \<Rightarrow>
   (TCPStreamLayer \<Rightarrow> 'trans) \<Rightarrow> (error + 'trans) \<times> TCPListener option" where
  "newTCPTransport net_Listen bindAddr adv transportCreator =
     (case net_Listen bindAddr of
        Inl err \<Rightarrow> (Inl err, None)
      | Inr list \<Rightarrow>
          (let stream = \<lparr>advertise = adv, listener = list\<rparr> in
           case Addr stream of
             NonTCP nw s \<Rightarrow> (Inl errNotTCP, Some (list_Close list))
           | TCP addr \<Rightarrow>
               if IP addr = None \<or> IsUnspecified (the (IP addr))
               then (Inl errNotAdvertisable, Some (list_Close list))
               else (Inr (transportCreator stream), Some list)))"

subsection \<open>Which constructions succeed\<close>

text \<open>
  Claim C7.  Once the listener is bound: \<open>Addr\<close> is the advertise address when one
  is configured and the listener's bound address otherwise; construction succeeds,
  leaving the listener open, exactly when that address is a TCP address whose IP is
  present and not unspecified (an address with no IP is the wildcard address, and the
  code rejects it with the unspecified ones); every failure leaves the listener closed;
  and with no advertise address and a listener bound to an unspecified address the
  result is the error \<open>local bind address is not advertisable\<close>.
\<close>

theorem newTCPTransport_advertisable:
  assumes "net_Listen bindAddr = Inr l"
  shows "Addr \<lparr>advertise = adv, listener = l\<rparr> =
           (case adv of Some a \<Rightarrow> a | None \<Rightarrow> TCP (laddr l)) \<and>
         ((\<exists>t. newTCPTransport net_Listen bindAddr adv creator = (Inr t, Some l)) \<longleftrightarrow>
            (\<exists>a ip. Addr \<lparr>advertise = adv, listener = l\<rparr> = TCP a \<and> IP a = Some ip \<and>
                    \<not> IsUnspecified ip)) \<and>
         ((\<exists>t. fst (newTCPTransport net_Listen bindAddr adv creator) = Inr t) \<or>
            snd (newTCPTransport net_Listen bindAddr adv creator) = Some (l\<lparr>lclosed := True\<rparr>)) \<and>
         (adv = None \<and> (IP (laddr l) = None \<or> IsUnspecified (the (IP (laddr l)))) \<longrightarrow>
            newTCPTransport net_Listen bindAddr adv creator =
              (Inl errNotAdvertisable, Some (l\<lparr>lclosed := True\<rparr>)))"
  using assms
  by (auto simp: newTCPTransport_def Addr_def list_Close_def Let_def
           split: option.splits net_Addr.splits)

text \<open>
  A listener bound to 0.0.0.0:4000: without an advertise address the construction
  fails and closes it, with the advertise address 10.0.0.1:4000 it succeeds.
\<close>

theorem newTCPTransport_advertisable_witness:
  "newTCPTransport
      (\<lambda>b. Inr \<lparr>laddr = \<lparr>IP = Some [0, 0, 0, 0], Port = 4000, Zone = []\<rparr>, lclosed = False\<rparr>)
      ''0.0.0.0:4000'' None (\<lambda>stream. stream) =
     (Inl errNotAdvertisable,
      Some \<lparr>laddr = \<lparr>IP = Some [0, 0, 0, 0], Port = 4000, Zone = []\<rparr>, lclosed = True\<rparr>) \<and>
   (\<exists>t. newTCPTransport
      (\<lambda>b. Inr \<lparr>laddr = \<lparr>IP = Some [0, 0, 0, 0], Port = 4000, Zone = []\<rparr>, lclosed = False\<rparr>)
      ''0.0.0.0:4000'' (Some (TCP \<lparr>IP = Some [10, 0, 0, 1], Port = 4000, Zone = []\<rparr>))
      (\<lambda>stream. stream) =
     (Inr t, Some \<lparr>laddr = \<lparr>IP = Some [0, 0, 0, 0], Port = 4000, Zone = []\<rparr>, lclosed = False\<rparr>))"
proof -
  let ?l = "\<lparr>laddr = \<lparr>IP = Some [0, 0, 0, 0], Port = 4000, Zone = []\<rparr>, lclosed = False\<rparr>"
  let ?listen = "\<lambda>b::string. (Inr ?l :: error + TCPListener)"
  have u: "IsUnspecified [0, 0, 0, 0]"
    by (simp add: IsUnspecified_def IP_Equal_def IPv4zero_def v4InV6Prefix_def)
  have n: "\<not> IsUnspecified [10, 0, 0, 1]"
    by (simp add: IsUnspecified_def IP_Equal_def IPv4zero_def IPv6unspecified_def
        v4InV6Prefix_def)
  from newTCPTransport_advertisable
         [of ?listen "''0.0.0.0:4000''" ?l None "\<lambda>stream. stream"]
       newTCPTransport_advertisable
         [of ?listen "''0.0.0.0:4000''" ?l
             "Some (TCP \<lparr>IP = Some [10, 0, 0, 1], Port = 4000, Zone = []\<rparr>)"
             "\<lambda>stream. stream"]
       u n
  show ?thesis by (simp add: Addr_def)
qed

section \<open>file_snapshot.go: the store\<close>

subsection \<open>Formatting and strings\<close>

definition digit_char :: "nat \<Rightarrow> char" where
  "digit_char n = ''0123456789'' ! n"

fun digits :: "nat \<Rightarrow> string" where
  "digits n = (if n < 10 then [digit_char n] else digits (n div 10) @ [digit_char (n mod 10)])"

declare digits.simps [simp del]

text \<open>The verb \<open>%d\<close> on a \<open>uint64\<close> and on a signed integer.\<close>

definition fmt_uint64 :: "uint64 \<Rightarrow> string" where
  "fmt_uint64 w = digits (unat w)"

definition fmt_int :: "int \<Rightarrow> string" where
  "fmt_int i = (if i < 0 then ''-'' @ digits (nat (- i)) else digits (nat i))"

text \<open>Go's integer division truncates towards zero.\<close>

definition go_div :: "int \<Rightarrow> int \<Rightarrow> int" where
  "go_div a b = sgn a * sgn b * (\<bar>a\<bar> div \<bar>b\<bar>)"

definition HasSuffix :: "string \<Rightarrow> string \<Rightarrow> bool" where
  "HasSuffix s suffix =
     (length suffix \<le> length s \<and> drop (length s - length suffix) s = suffix)"

definition TrimSuffix :: "string \<Rightarrow> string \<Rightarrow> string" where
  "TrimSuffix s suffix =
     (if HasSuffix s suffix then take (length s - length suffix) s else s)"

definition tmpSuffix :: string where
  "tmpSuffix = ''.tmp''"

definition testPath :: string where
  "testPath = ''permTest''"

subsection \<open>hash/crc64 with the ECMA polynomial\<close>

definition ECMA :: uint64 where
  "ECMA = 0xC96C5795D7870F42"

definition crc_shift :: "uint64 \<Rightarrow> uint64 \<Rightarrow> uint64" where
  "crc_shift poly crc =
     (if crc AND 1 = 1 then drop_bit 1 crc XOR poly else drop_bit 1 crc)"

text \<open>\<open>crc64.MakeTable\<close>: entry \<open>i\<close> of the table is eight shift steps from \<open>i\<close>.\<close>

definition MakeTable :: "uint64 \<Rightarrow> byte \<Rightarrow> uint64" where
  "MakeTable poly i = (crc_shift poly ^^ 8) (ucast i)"

text \<open>
  \<open>crc64.update\<close>: \<open>crc = ^crc\<close>, then \<open>crc = tab[byte(crc)^v] ^ (crc >> 8)\<close> for
  every byte, then \<open>^crc\<close> again.
\<close>

definition crc_byte :: "(byte \<Rightarrow> uint64) \<Rightarrow> uint64 \<Rightarrow> byte \<Rightarrow> uint64" where
  "crc_byte tab crc v = tab (ucast crc XOR v) XOR drop_bit 8 crc"

definition crc64_update :: "uint64 \<Rightarrow> (byte \<Rightarrow> uint64) \<Rightarrow> byte list \<Rightarrow> uint64" where
  "crc64_update crc tab p = NOT (foldl (crc_byte tab) (NOT crc) p)"

text \<open>The digest's \<open>Write\<close> and \<open>Sum(nil)\<close> (the checksum, big-endian).\<close>

definition hash_Write :: "uint64 \<Rightarrow> byte list \<Rightarrow> uint64" where
  "hash_Write crc p = crc64_update crc (MakeTable ECMA) p"

definition hash_Sum :: "uint64 \<Rightarrow> byte list" where
  "hash_Sum s =
     [ucast (drop_bit 56 s), ucast (drop_bit 48 s), ucast (drop_bit 40 s),
      ucast (drop_bit 32 s), ucast (drop_bit 24 s), ucast (drop_bit 16 s),
      ucast (drop_bit 8 s), ucast s]"

subsection \<open>Snapshot metadata\<close>

text \<open>
  \<open>SnapshotMeta\<close>, \<open>Configuration\<close>, \<open>Transport\<close> and \<open>encodePeers\<close> are declared
  in files of the package that are not among the sources; the fields are the ones the
  snapshot store reads and writes.  The configuration and the transport are type
  parameters.  \<open>fileSnapshotMeta\<close> embeds \<open>SnapshotMeta\<close> and adds the checksum;
  a \<open>nil\<close> checksum is the empty list (\<open>bytes.Equal\<close> does not tell them apart).
\<close>

record 'cfg SnapshotMeta =
  Version :: int
  ID :: string
  Index :: uint64
  Term :: uint64
  Peers :: "byte list"
  Configuration :: 'cfg
  ConfigurationIndex :: uint64
  Size :: int

record 'cfg fileSnapshotMeta = "'cfg SnapshotMeta" +
  CRC :: "byte list"

text \<open>
  The supported snapshot versions and the operating system name are constants of the
  build, declared outside the sources: they are parameters of the model.
\<close>

record environment =
  GOOS :: string
  SnapshotVersionMin :: int
  SnapshotVersionMax :: int

subsection \<open>The snapshot directory on disk\<close>

text \<open>
  The file system value describes the children of the directory \<open>f.path\<close>; every path
  the store builds with \<open>filepath.Join(f.path, x)\<close> is the child named \<open>x\<close>.  A child is
  a regular file or a directory holding \<open>meta.json\<close> and \<open>state.bin\<close>.  The store reads
  and writes \<open>meta.json\<close> only through \<open>encoding/json\<close>, so its content is kept as what
  the decoder makes of it: a \<open>fileSnapshotMeta\<close>, or nothing (empty, truncated or
  otherwise malformed).  \<open>open_fds\<close> are the descriptors of the state files that are
  open.
\<close>

datatype 'cfg meta_file = Decodes "'cfg fileSnapshotMeta" | Undecodable

record 'cfg snapdir =
  meta_json :: "'cfg meta_file option"
  state_bin :: "byte list option"

datatype 'cfg node = RegularFile "byte list" | Directory "'cfg snapdir"

record 'cfg filesystem =
  entries :: "(string \<times> 'cfg node) list"
  open_fds :: "nat list"

record os_File =
  fd :: nat
  fdir :: string
  pos :: nat

text \<open>
  What the environment may do to each system call of the store: \<open>None\<close> lets the call
  run, \<open>Some e\<close> makes it fail with \<open>e\<close>.  A failing write to the state file has
  written a number of bytes before it failed.
\<close>

record faults =
  mkdirAll_err :: "error option"
  create_err :: "error option"
  fclose_err :: "error option"
  remove_err :: "error option"
  meta_create_err :: "error option"
  encode_err :: "error option"
  meta_flush_err :: "error option"
  meta_sync_err :: "error option"
  write_err :: "(nat \<times> error) option"
  sync_err :: "error option"
  stat_err :: "error option"
  removeAll_err :: "string \<Rightarrow> error option"
  rename_err :: "error option"
  parent_open_err :: "error option"
  parent_sync_err :: "error option"
  readDir_err :: "error option"
  open_err :: "error option"
  copy_err :: "error option"
  seek_err :: "error option"

definition no_faults :: faults where
  "no_faults =
     \<lparr>mkdirAll_err = None, create_err = None, fclose_err = None, remove_err = None,
      meta_create_err = None, encode_err = None, meta_flush_err = None,
      meta_sync_err = None, write_err = None, sync_err = None, stat_err = None,
      removeAll_err = (\<lambda>p. None), rename_err = None, parent_open_err = None,
      parent_sync_err = None, readDir_err = None, open_err = None, copy_err = None,
      seek_err = None\<rparr>"

definition lookup :: "'cfg filesystem \<Rightarrow> string \<Rightarrow> 'cfg node option" where
  "lookup fs name = map_of (entries fs) name"

definition put_entry :: "string \<Rightarrow> 'cfg node \<Rightarrow> 'cfg filesystem \<Rightarrow> 'cfg filesystem" where
  "put_entry name n fs = fs\<lparr>entries := AList.update name n (entries fs)\<rparr>"

definition del_entry :: "string \<Rightarrow> 'cfg filesystem \<Rightarrow> 'cfg filesystem" where
  "del_entry name fs = fs\<lparr>entries := AList.delete name (entries fs)\<rparr>"

definition empty_dir :: "'cfg snapdir" where
  "empty_dir = \<lparr>meta_json = None, state_bin = None\<rparr>"

text \<open>\<open>os.MkdirAll\<close> on a child of the snapshot directory.\<close>

definition os_MkdirAll :: "string \<Rightarrow> error option \<Rightarrow> 'cfg filesystem \<Rightarrow> error option \<times> 'cfg filesystem" where
  "os_MkdirAll name fault fs =
     (case fault of
        Some e \<Rightarrow> (Some e, fs)
      | None \<Rightarrow>
          (case lookup fs name of
             None \<Rightarrow> (None, put_entry name (Directory empty_dir) fs)
           | Some (Directory d) \<Rightarrow> (None, fs)
           | Some (RegularFile c) \<Rightarrow> (Some (Errno ENOTDIR), fs)))"

text \<open>\<open>os.RemoveAll\<close>: removing what is not there is no error.\<close>

definition os_RemoveAll :: "string \<Rightarrow> error option \<Rightarrow> 'cfg filesystem \<Rightarrow> error option \<times> 'cfg filesystem" where
  "os_RemoveAll name fault fs =
     (case fault of
        Some e \<Rightarrow> (Some e, fs)
      | None \<Rightarrow> (None, del_entry name fs))"

text \<open>
  \<open>os.Rename\<close> as rename(2): the target may exist only as an empty directory (for a
  directory) or as a file (for a file); renaming a path to itself does nothing.
\<close>

definition os_Rename :: "string \<Rightarrow> string \<Rightarrow> error option \<Rightarrow> 'cfg filesystem \<Rightarrow> error option \<times> 'cfg filesystem" where
  "os_Rename old new fault fs =
     (case fault of
        Some e \<Rightarrow> (Some e, fs)
      | None \<Rightarrow>
          (case lookup fs old of
             None \<Rightarrow> (Some (Errno ENOENT), fs)
           | Some n \<Rightarrow>
               if old = new then (None, fs)
               else
                 (case (n, lookup fs new) of
                    (_, None) \<Rightarrow> (None, put_entry new n (del_entry old fs))
                  | (Directory d, Some (Directory d')) \<Rightarrow>
                      if d' = empty_dir then (None, put_entry new n (del_entry old fs))
                      else (Some (Errno ENOTEMPTY), fs)
                  | (Directory d, Some (RegularFile c)) \<Rightarrow> (Some (Errno ENOTDIR), fs)
                  | (RegularFile c, Some (Directory d')) \<Rightarrow> (Some (Errno EISDIR), fs)
                  | (RegularFile c, Some (RegularFile c')) \<Rightarrow>
                      (None, put_entry new n (del_entry old fs)))))"

text \<open>\<open>os.ReadDir\<close> returns the entries sorted by file name, each with its \<open>IsDir\<close>.\<close>

fun IsDir :: "'cfg node \<Rightarrow> bool" where
  "IsDir (Directory d) = True"
| "IsDir (RegularFile c) = False"

definition os_ReadDir :: "error option \<Rightarrow> 'cfg filesystem \<Rightarrow> error + (string \<times> bool) list" where
  "os_ReadDir fault fs =
     (case fault of
        Some e \<Rightarrow> Inl e
      | None \<Rightarrow> Inr (map (\<lambda>(name, n). (name, IsDir n)) (sort_key fst (entries fs))))"

text \<open>Descriptors: a fresh one on open, gone on close.\<close>

definition fresh_fd :: "nat list \<Rightarrow> nat" where
  "fresh_fd fds = Suc (fold max fds 0)"

definition is_open :: "'cfg filesystem \<Rightarrow> os_File \<Rightarrow> bool" where
  "is_open fs fh = (fd fh \<in> set (open_fds fs))"

definition os_open_fd :: "string \<Rightarrow> 'cfg filesystem \<Rightarrow> os_File \<times> 'cfg filesystem" where
  "os_open_fd d fs =
     (\<lparr>fd = fresh_fd (open_fds fs), fdir = d, pos = 0\<rparr>,
      fs\<lparr>open_fds := fresh_fd (open_fds fs) # open_fds fs\<rparr>)"

text \<open>\<open>(*os.File).Close\<close>: the descriptor is released even when close reports an error.\<close>

definition File_Close :: "os_File \<Rightarrow> error option \<Rightarrow> 'cfg filesystem \<Rightarrow> error option \<times> 'cfg filesystem" where
  "File_Close fh fault fs =
     (if \<not> is_open fs fh then (Some ErrClosed, fs)
      else (fault, fs\<lparr>open_fds := removeAll (fd fh) (open_fds fs)\<rparr>))"

text \<open>The bytes of \<open>state.bin\<close> in a child directory, when it is there.\<close>

definition state_content :: "'cfg filesystem \<Rightarrow> string \<Rightarrow> byte list option" where
  "state_content fs d =
     (case lookup fs d of
        Some (Directory sd) \<Rightarrow> state_bin sd
      | Some (RegularFile c) \<Rightarrow> None
      | None \<Rightarrow> None)"

text \<open>
  A write through an open descriptor appends to the file it was opened on (the store
  never seeks while writing).  When the file has been unlinked meanwhile the bytes go
  to an inode nobody can see.
\<close>

definition file_append :: "string \<Rightarrow> byte list \<Rightarrow> 'cfg filesystem \<Rightarrow> 'cfg filesystem" where
  "file_append d p fs =
     (case lookup fs d of
        Some (Directory sd) \<Rightarrow>
          (case state_bin sd of
             Some c \<Rightarrow> put_entry d (Directory (sd\<lparr>state_bin := Some (c @ p)\<rparr>)) fs
           | None \<Rightarrow> fs)
      | Some (RegularFile c) \<Rightarrow> fs
      | None \<Rightarrow> fs)"

record FileSnapshotStore =
  path :: string
  retain :: int
  noSync :: bool

record bufio_Writer =
  buf :: "byte list"
  werr :: "error option"

definition defaultBufSize :: nat where
  "defaultBufSize = 4096"

record 'cfg FileSnapshotSink =
  store :: FileSnapshotStore
  dir :: string
  parentDir :: string
  meta :: "'cfg fileSnapshotMeta"
  sink_noSync :: bool
  stateFile :: os_File
  stateHash :: uint64
  buffered :: bufio_Writer
  closed :: bool

text \<open>
  \<open>bufferedFile\<close>: \<open>bh\<close> is a \<open>bufio.Reader\<close> over \<open>fh\<close>; the bytes it has read ahead
  and not handed out are \<open>bh\<close>, the offset of the handle is \<open>pos\<close> of \<open>fh\<close>.
\<close>

record bufferedFile =
  bh :: "byte list"
  fh :: os_File

subsection \<open>Construction\<close>

text \<open>\<open>testPermissions\<close>: create \<open>permTest\<close> in the directory, close it, remove it.\<close>

definition testPermissions ::
  "FileSnapshotStore \<Rightarrow> faults \<Rightarrow> 'cfg filesystem \<Rightarrow> error option \<times> 'cfg filesystem" where
  "testPermissions f F fs =
     (case (create_err F, lookup fs testPath) of
        (Some err, _) \<Rightarrow> (Some err, fs)
      | (None, Some (Directory d)) \<Rightarrow> (Some (Errno EISDIR), fs)
      | (None, _) \<Rightarrow>
          (let fs1 = put_entry testPath (RegularFile []) fs in
           case fclose_err F of
             Some err \<Rightarrow> (Some err, fs1)
           | None \<Rightarrow>
               (case remove_err F of
                  Some err \<Rightarrow> (Some err, fs1)
                | None \<Rightarrow> (None, del_entry testPath fs1))))"

text \<open>
  \<open>NewFileSnapshotStoreWithLogger\<close>.  The logger only receives messages and is left
  out.  \<open>path\<close> stands for \<open>filepath.Join(base, snapPath)\<close>, the directory the file
  system value describes; \<open>os.MkdirAll\<close> on it fails only when the environment says so.
\<close>

definition snapPath :: string where
  "snapPath = ''snapshots''"

definition filepath_Join :: "string \<Rightarrow> string \<Rightarrow> string" where
  "filepath_Join a b = a @ ''/'' @ b"

definition NewFileSnapshotStoreWithLogger ::
  "string \<Rightarrow> int \<Rightarrow> faults \<Rightarrow> 'cfg filesystem \<Rightarrow>
   (error + FileSnapshotStore) \<times> 'cfg filesystem" where
  "NewFileSnapshotStoreWithLogger base retain_arg F fs =
     (if retain_arg < 1 then (Inl (Errorf ''must retain at least one snapshot''), fs)
      else
        (case mkdirAll_err F of
           Some err \<Rightarrow>
             if \<not> os_IsExist err
             then (Inl (Errorf (''snapshot path not accessible: '' @ Error err)), fs)
             else
               (let store = \<lparr>path = filepath_Join base snapPath, retain = retain_arg,
                             noSync = False\<rparr> in
                case testPermissions store F fs of
                  (Some err, fs1) \<Rightarrow>
                    (Inl (Errorf (''permissions test failed: '' @ Error err)), fs1)
                | (None, fs1) \<Rightarrow> (Inr store, fs1))
         | None \<Rightarrow>
             (let store = \<lparr>path = filepath_Join base snapPath, retain = retain_arg,
                           noSync = False\<rparr> in
              case testPermissions store F fs of
                (Some err, fs1) \<Rightarrow>
                  (Inl (Errorf (''permissions test failed: '' @ Error err)), fs1)
              | (None, fs1) \<Rightarrow> (Inr store, fs1))))"

text \<open>\<open>NewFileSnapshotStore\<close> builds a logger and calls the function above.\<close>

definition NewFileSnapshotStore ::
  "string \<Rightarrow> int \<Rightarrow> faults \<Rightarrow> 'cfg filesystem \<Rightarrow>
   (error + FileSnapshotStore) \<times> 'cfg filesystem" where
  "NewFileSnapshotStore base retain_arg F fs = NewFileSnapshotStoreWithLogger base retain_arg F fs"

subsection \<open>Writing a snapshot\<close>

text \<open>\<open>snapshotName\<close>; \<open>now\<close> is \<open>time.Now().UnixNano()\<close>.\<close>

definition snapshotName :: "uint64 \<Rightarrow> uint64 \<Rightarrow> int \<Rightarrow> string" where
  "snapshotName term index now =
     (let msec = go_div now 1000000
      in fmt_uint64 term @ ''-'' @ fmt_uint64 index @ ''-'' @ fmt_int msec)"

text \<open>
  \<open>writeMeta\<close>: create (or truncate) \<open>meta.json\<close> in the sink's directory, encode the
  metadata, flush, sync.  Until the flush has succeeded the file holds no complete JSON
  value.  The deferred close of the file is on every path.
\<close>

definition writeMeta ::
  "'cfg FileSnapshotSink \<Rightarrow> faults \<Rightarrow> 'cfg filesystem \<Rightarrow> error option \<times> 'cfg filesystem" where
  "writeMeta s F fs =
     (case meta_create_err F of
        Some err \<Rightarrow> (Some err, fs)
      | None \<Rightarrow>
          (case lookup fs (dir s) of
             None \<Rightarrow> (Some (Errno ENOENT), fs)
           | Some (RegularFile c) \<Rightarrow> (Some (Errno ENOTDIR), fs)
           | Some (Directory sd) \<Rightarrow>
               (let fs1 = put_entry (dir s) (Directory (sd\<lparr>meta_json := Some Undecodable\<rparr>)) fs in
                case encode_err F of
                  Some err \<Rightarrow> (Some err, fs1)
                | None \<Rightarrow>
                    (case meta_flush_err F of
                       Some err \<Rightarrow> (Some err, fs1)
                     | None \<Rightarrow>
                         (let fs2 = put_entry (dir s)
                                      (Directory (sd\<lparr>meta_json := Some (Decodes (meta s))\<rparr>)) fs
                          in if \<not> sink_noSync s
                             then (case meta_sync_err F of
                                     Some err \<Rightarrow> (Some err, fs2)
                                   | None \<Rightarrow> (None, fs2))
                             else (None, fs2))))))"

text \<open>
  \<open>os.Create\<close> of \<open>state.bin\<close> in a child directory: the file is created or truncated
  and a descriptor opened on it.
\<close>

definition os_Create_state ::
  "string \<Rightarrow> error option \<Rightarrow> 'cfg filesystem \<Rightarrow> (error + os_File) \<times> 'cfg filesystem" where
  "os_Create_state d fault fs =
     (case fault of
        Some err \<Rightarrow> (Inl err, fs)
      | None \<Rightarrow>
          (case lookup fs d of
             None \<Rightarrow> (Inl (Errno ENOENT), fs)
           | Some (RegularFile c) \<Rightarrow> (Inl (Errno ENOTDIR), fs)
           | Some (Directory sd) \<Rightarrow>
               (case os_open_fd d (put_entry d (Directory (sd\<lparr>state_bin := Some []\<rparr>)) fs) of
                  (h, fs1) \<Rightarrow> (Inr h, fs1))))"

text \<open>
  \<open>Create\<close>.  \<open>encodePeers\<close> is passed in; \<open>now\<close> is the clock reading that
  \<open>snapshotName\<close> takes.  A sink exists only when \<open>Create\<close> returns one.
\<close>

definition Create ::
  "FileSnapshotStore \<Rightarrow> int \<Rightarrow> uint64 \<Rightarrow> uint64 \<Rightarrow> 'cfg \<Rightarrow> uint64 \<Rightarrow> 'tr \<Rightarrow>
   ('cfg \<Rightarrow> 'tr \<Rightarrow> byte list) \<Rightarrow> int \<Rightarrow> faults \<Rightarrow> 'cfg filesystem \<Rightarrow>
   (error + 'cfg FileSnapshotSink) \<times> 'cfg filesystem" where
  "Create f version index term configuration configurationIndex transport encodePeers now F fs =
     (if version \<noteq> 1
      then (Inl (Errorf (''unsupported snapshot version '' @ fmt_int version)), fs)
      else
        (let name = snapshotName term index now;
             path' = name @ tmpSuffix
         in case os_MkdirAll path' (mkdirAll_err F) fs of
              (Some err, fs1) \<Rightarrow> (Inl err, fs1)
            | (None, fs1) \<Rightarrow>
                (let sink = \<lparr>store = f, dir = path', parentDir = path f,
                             meta = \<lparr>Version = version, ID = name, Index = index, Term = term,
                                     Peers = encodePeers configuration transport,
                                     Configuration = configuration,
                                     ConfigurationIndex = configurationIndex,
                                     Size = 0, CRC = []\<rparr>,
                             sink_noSync = noSync f,
                             stateFile = \<lparr>fd = 0, fdir = path', pos = 0\<rparr>,
                             stateHash = 0,
                             buffered = \<lparr>buf = [], werr = None\<rparr>,
                             closed = False\<rparr>
                 in case writeMeta sink F fs1 of
                      (Some err, fs2) \<Rightarrow> (Inl err, fs2)
                    | (None, fs2) \<Rightarrow>
                        (case os_Create_state path' (create_err F) fs2 of
                           (Inl err, fs3) \<Rightarrow> (Inl err, fs3)
                         | (Inr h, fs3) \<Rightarrow> (Inr (sink\<lparr>stateFile := h\<rparr>), fs3)))))"

text \<open>\<open>ID\<close> of the sink.\<close>

definition Sink_ID :: "'cfg FileSnapshotSink \<Rightarrow> string" where
  "Sink_ID s = ID (meta s)"

text \<open>
  \<open>(*os.File).Write\<close> on the state file; \<open>Sync\<close>, \<open>Stat\<close> (the size) and \<open>Seek\<close>
  to an absolute offset.  All of them fail on a closed file.
\<close>

definition File_Write ::
  "os_File \<Rightarrow> byte list \<Rightarrow> (nat \<times> error) option \<Rightarrow> 'cfg filesystem \<Rightarrow>
   (nat \<times> error option) \<times> 'cfg filesystem" where
  "File_Write h p fault fs =
     (if \<not> is_open fs h then ((0, Some ErrClosed), fs)
      else
        (case fault of
           Some (n, err) \<Rightarrow> ((min n (length p), Some err), file_append (fdir h) (take n p) fs)
         | None \<Rightarrow> ((length p, None), file_append (fdir h) p fs)))"

definition File_Sync :: "os_File \<Rightarrow> error option \<Rightarrow> 'cfg filesystem \<Rightarrow> error option" where
  "File_Sync h fault fs = (if \<not> is_open fs h then Some ErrClosed else fault)"

definition File_Stat :: "os_File \<Rightarrow> error option \<Rightarrow> 'cfg filesystem \<Rightarrow> error + int" where
  "File_Stat h fault fs =
     (if \<not> is_open fs h then Inl ErrClosed
      else
        (case fault of
           Some err \<Rightarrow> Inl err
         | None \<Rightarrow>
             (case state_content fs (fdir h) of
                Some c \<Rightarrow> Inr (int (length c))
              | None \<Rightarrow> Inr 0)))"

definition File_Seek :: "os_File \<Rightarrow> nat \<Rightarrow> error option \<Rightarrow> 'cfg filesystem \<Rightarrow> error + os_File" where
  "File_Seek h offset fault fs =
     (if \<not> is_open fs h then Inl ErrClosed
      else (case fault of Some err \<Rightarrow> Inl err | None \<Rightarrow> Inr (h\<lparr>pos := offset\<rparr>)))"

text \<open>
  One \<open>Write\<close> of the \<open>io.MultiWriter\<close> over the state file and the hash: the file
  first, and the hash only when the file took everything.
\<close>

definition multi_Write ::
  "'cfg FileSnapshotSink \<Rightarrow> byte list \<Rightarrow> (nat \<times> error) option \<Rightarrow> 'cfg filesystem \<Rightarrow>
   (nat \<times> error option) \<times> 'cfg FileSnapshotSink \<times> 'cfg filesystem" where
  "multi_Write s p fault fs =
     (case File_Write (stateFile s) p fault fs of
        ((n, Some err), fs1) \<Rightarrow> ((n, Some err), s, fs1)
      | ((n, None), fs1) \<Rightarrow>
          ((length p, None), s\<lparr>stateHash := hash_Write (stateHash s) p\<rparr>, fs1))"

text \<open>\<open>(*bufio.Writer).Flush\<close> over the multi-writer.\<close>

definition bufio_Flush ::
  "'cfg FileSnapshotSink \<Rightarrow> (nat \<times> error) option \<Rightarrow> 'cfg filesystem \<Rightarrow>
   error option \<times> 'cfg FileSnapshotSink \<times> 'cfg filesystem" where
  "bufio_Flush s fault fs =
     (let b = buffered s in
      if werr b \<noteq> None then (werr b, s, fs)
      else if buf b = [] then (None, s, fs)
      else
        (case multi_Write s (buf b) fault fs of
           ((n, Some err), s1, fs1) \<Rightarrow>
             (Some err, s1\<lparr>buffered := \<lparr>buf = drop n (buf b), werr = Some err\<rparr>\<rparr>, fs1)
         | ((n, None), s1, fs1) \<Rightarrow>
             (None, s1\<lparr>buffered := \<lparr>buf = [], werr = None\<rparr>\<rparr>, fs1)))"

definition Available :: "bufio_Writer \<Rightarrow> nat" where
  "Available b = defaultBufSize - length (buf b)"

text \<open>
  The loop of \<open>(*bufio.Writer).Write\<close>: while the bytes do not fit, either write them
  straight through (empty buffer) or fill the buffer and flush it.  Each write to the
  file takes the next entry of \<open>faults\<close>.  The loop stops once an error is recorded.
\<close>

function bufio_Write_loop ::
  "'cfg FileSnapshotSink \<Rightarrow> byte list \<Rightarrow> (nat \<times> error) option list \<Rightarrow> 'cfg filesystem \<Rightarrow> nat \<Rightarrow>
   nat \<times> byte list \<times> 'cfg FileSnapshotSink \<times> 'cfg filesystem" where
  "bufio_Write_loop s p wfaults fs nn =
     (if length p > Available (buffered s) \<and> werr (buffered s) = None
      then
        (if buf (buffered s) = []
         then
           (case multi_Write s p (case wfaults of [] \<Rightarrow> None | w # ws \<Rightarrow> w) fs of
              ((n, Some err), s1, fs1) \<Rightarrow>
                (nn + n, drop n p, s1\<lparr>buffered := (buffered s1)\<lparr>werr := Some err\<rparr>\<rparr>, fs1)
            | ((n, None), s1, fs1) \<Rightarrow> bufio_Write_loop s1 (drop n p) (tl wfaults) fs1 (nn + n))
         else
           (let n = min (Available (buffered s)) (length p);
                s0 = s\<lparr>buffered := (buffered s)\<lparr>buf := buf (buffered s) @ take n p\<rparr>\<rparr>
            in case bufio_Flush s0 (case wfaults of [] \<Rightarrow> None | w # ws \<Rightarrow> w) fs of
                 (Some err, s1, fs1) \<Rightarrow> (nn + n, drop n p, s1, fs1)
               | (None, s1, fs1) \<Rightarrow> bufio_Write_loop s1 (drop n p) (tl wfaults) fs1 (nn + n)))
      else (nn, p, s, fs))"
  by pat_completeness auto
termination bufio_Write_loop
  apply (relation "measure (\<lambda>(s, p, wf, fs, nn).
           2 * length p + (if buf (buffered s) = [] then 0 else 1))")
    apply simp
   apply (auto simp: multi_Write_def File_Write_def bufio_Flush_def Let_def Available_def
               split: if_splits option.splits prod.splits)
  done

declare bufio_Write_loop.simps [simp del]

text \<open>\<open>(*bufio.Writer).Write\<close>, which is \<open>(*FileSnapshotSink).Write\<close>.\<close>

definition Write ::
  "'cfg FileSnapshotSink \<Rightarrow> byte list \<Rightarrow> (nat \<times> error) option list \<Rightarrow> 'cfg filesystem \<Rightarrow>
   (nat \<times> error option) \<times> 'cfg FileSnapshotSink \<times> 'cfg filesystem" where
  "Write s b wfaults fs =
     (case bufio_Write_loop s b wfaults fs 0 of
        (nn, p, s1, fs1) \<Rightarrow>
          if werr (buffered s1) \<noteq> None then ((nn, werr (buffered s1)), s1, fs1)
          else ((nn + length p, None),
                s1\<lparr>buffered := (buffered s1)\<lparr>buf := buf (buffered s1) @ p\<rparr>\<rparr>, fs1))"

text \<open>A sequence of \<open>Write\<close> calls, each with what the environment does to its writes.\<close>

fun Writes ::
  "'cfg FileSnapshotSink \<Rightarrow> (byte list \<times> (nat \<times> error) option list) list \<Rightarrow> 'cfg filesystem \<Rightarrow>
   'cfg FileSnapshotSink \<times> 'cfg filesystem" where
  "Writes s [] fs = (s, fs)"
| "Writes s ((b, wfaults) # rest) fs =
     (case Write s b wfaults fs of (r, s', fs') \<Rightarrow> Writes s' rest fs')"

text \<open>\<open>finalize\<close>: flush, sync, stat, close; then the size and the checksum.\<close>

definition finalize ::
  "'cfg FileSnapshotSink \<Rightarrow> faults \<Rightarrow> 'cfg filesystem \<Rightarrow>
   error option \<times> 'cfg FileSnapshotSink \<times> 'cfg filesystem" where
  "finalize s F fs =
     (case bufio_Flush s (write_err F) fs of
        (Some err, s1, fs1) \<Rightarrow> (Some err, s1, fs1)
      | (None, s1, fs1) \<Rightarrow>
          (case (if \<not> sink_noSync s1 then File_Sync (stateFile s1) (sync_err F) fs1 else None) of
             Some err \<Rightarrow> (Some err, s1, fs1)
           | None \<Rightarrow>
               (let stat = File_Stat (stateFile s1) (stat_err F) fs1 in
                case File_Close (stateFile s1) (fclose_err F) fs1 of
                  (Some err, fs2) \<Rightarrow> (Some err, s1, fs2)
                | (None, fs2) \<Rightarrow>
                    (case stat of
                       Inl statErr \<Rightarrow> (Some statErr, s1, fs2)
                     | Inr sz \<Rightarrow>
                         (None,
                          s1\<lparr>meta := (meta s1)\<lparr>Size := sz, CRC := hash_Sum (stateHash s1)\<rparr>\<rparr>,
                          fs2)))))"

subsection \<open>Reading the directory\<close>

text \<open>
  \<open>readMeta\<close>: open \<open>meta.json\<close> of the named child and decode it.  The malformed
  case stands for every error of the JSON decoder.
\<close>

definition readMeta ::
  "FileSnapshotStore \<Rightarrow> string \<Rightarrow> 'cfg filesystem \<Rightarrow> error + 'cfg fileSnapshotMeta" where
  "readMeta f name fs =
     (case lookup fs name of
        None \<Rightarrow> Inl (Errno ENOENT)
      | Some (RegularFile c) \<Rightarrow> Inl (Errno ENOTDIR)
      | Some (Directory sd) \<Rightarrow>
          (case meta_json sd of
             None \<Rightarrow> Inl (Errno ENOENT)
           | Some Undecodable \<Rightarrow> Inl (Errorf ''unexpected end of JSON input'')
           | Some (Decodes m) \<Rightarrow> Inr m))"

text \<open>\<open>snapMetaSlice.Less\<close> on two elements, and \<open>sort.Reverse\<close> of an order.\<close>

definition Less ::
  "('cfg, 'more) SnapshotMeta_scheme \<Rightarrow> ('cfg, 'more) SnapshotMeta_scheme \<Rightarrow> bool" where
  "Less a b =
     (if Term a \<noteq> Term b then Term a < Term b
      else if Index a \<noteq> Index b then Index a < Index b
      else ID a < ID b)"

definition Reverse :: "('a \<Rightarrow> 'a \<Rightarrow> bool) \<Rightarrow> 'a \<Rightarrow> 'a \<Rightarrow> bool" where
  "Reverse lessf a b = lessf b a"

text \<open>
  \<open>sort.Sort\<close> as the insertion sort of package sort (which is what it runs on slices
  of at most twelve elements): each element in turn is swapped towards the front while
  it is less than its predecessor.  \<open>sift\<close> works on the sorted prefix in reverse.
  On more elements \<open>sort.Sort\<close> runs another algorithm, and may order elements that
  compare equal differently.
\<close>

fun sift :: "('a \<Rightarrow> 'a \<Rightarrow> bool) \<Rightarrow> 'a \<Rightarrow> 'a list \<Rightarrow> 'a list" where
  "sift lessf x [] = [x]"
| "sift lessf x (y # ys) = (if lessf x y then y # sift lessf x ys else x # y # ys)"

definition sort_Sort :: "('a \<Rightarrow> 'a \<Rightarrow> bool) \<Rightarrow> 'a list \<Rightarrow> 'a list" where
  "sort_Sort lessf xs = rev (foldl (\<lambda>front x. sift lessf x front) [] xs)"

text \<open>The loop of \<open>getSnapshots\<close> over the directory entries.\<close>

fun populate ::
  "FileSnapshotStore \<Rightarrow> environment \<Rightarrow> 'cfg filesystem \<Rightarrow> (string \<times> bool) list \<Rightarrow>
   'cfg fileSnapshotMeta list" where
  "populate f E fs [] = []"
| "populate f E fs ((dirName, isDir) # snapshots) =
     (if \<not> isDir then populate f E fs snapshots
      else if HasSuffix dirName tmpSuffix then populate f E fs snapshots
      else
        (case readMeta f dirName fs of
           Inl err \<Rightarrow> populate f E fs snapshots
         | Inr m \<Rightarrow>
             if Version m < SnapshotVersionMin E \<or> Version m > SnapshotVersionMax E
             then populate f E fs snapshots
             else m # populate f E fs snapshots))"

text \<open>
  What that loop finds on a disk: the metadata of the finalized snapshots (directories
  without the \<open>.tmp\<close> suffix whose metadata can be read and has a supported version),
  in the order of their directory names.
\<close>

definition finalized ::
  "FileSnapshotStore \<Rightarrow> environment \<Rightarrow> 'cfg filesystem \<Rightarrow> 'cfg fileSnapshotMeta list" where
  "finalized f E fs =
     populate f E fs (map (\<lambda>(name, n). (name, IsDir n)) (sort_key fst (entries fs)))"

definition getSnapshots ::
  "FileSnapshotStore \<Rightarrow> environment \<Rightarrow> faults \<Rightarrow> 'cfg filesystem \<Rightarrow>
   error + 'cfg fileSnapshotMeta list" where
  "getSnapshots f E F fs =
     (case os_ReadDir (readDir_err F) fs of
        Inl err \<Rightarrow> Inl err
      | Inr snapshots \<Rightarrow> Inr (sort_Sort (Reverse Less) (populate f E fs snapshots)))"

text \<open>\<open>List\<close>: the loop appends and breaks when the length reaches \<open>retain\<close>.\<close>

fun List_loop ::
  "int \<Rightarrow> 'cfg SnapshotMeta list \<Rightarrow> 'cfg fileSnapshotMeta list \<Rightarrow> 'cfg SnapshotMeta list" where
  "List_loop r snapMeta [] = snapMeta"
| "List_loop r snapMeta (m # snapshots) =
     (let snapMeta' = snapMeta @ [SnapshotMeta.truncate m]
      in if int (length snapMeta') = r then snapMeta' else List_loop r snapMeta' snapshots)"

definition List ::
  "FileSnapshotStore \<Rightarrow> environment \<Rightarrow> faults \<Rightarrow> 'cfg filesystem \<Rightarrow>
   error + 'cfg SnapshotMeta list" where
  "List f E F fs =
     (case getSnapshots f E F fs of
        Inl err \<Rightarrow> Inl err
      | Inr snapshots \<Rightarrow> Inr (List_loop (retain f) [] snapshots))"

subsection \<open>Opening a snapshot\<close>

definition os_Open_state ::
  "string \<Rightarrow> error option \<Rightarrow> 'cfg filesystem \<Rightarrow> (error + os_File) \<times> 'cfg filesystem" where
  "os_Open_state d fault fs =
     (case fault of
        Some err \<Rightarrow> (Inl err, fs)
      | None \<Rightarrow>
          (case state_content fs d of
             None \<Rightarrow> (Inl (Errno ENOENT), fs)
           | Some c \<Rightarrow> (case os_open_fd d fs of (h, fs1) \<Rightarrow> (Inr h, fs1))))"

text \<open>
  \<open>io.Copy(stateHash, fh)\<close> with a fresh hash: everything from the offset of the
  handle to the end of the file goes through the hash, and the offset ends there.
\<close>

definition io_Copy_hash ::
  "os_File \<Rightarrow> error option \<Rightarrow> 'cfg filesystem \<Rightarrow> (error + uint64) \<times> os_File" where
  "io_Copy_hash h fault fs =
     (if \<not> is_open fs h then (Inl ErrClosed, h)
      else
        (case fault of
           Some err \<Rightarrow> (Inl err, h)
         | None \<Rightarrow>
             (let c = (case state_content fs (fdir h) of Some c \<Rightarrow> c | None \<Rightarrow> [])
              in (Inr (hash_Write 0 (drop (pos h) c)), h\<lparr>pos := max (pos h) (length c)\<rparr>))))"

definition bytes_Equal :: "byte list \<Rightarrow> byte list \<Rightarrow> bool" where
  "bytes_Equal a b = (a = b)"

text \<open>\<open>Open\<close>: the errors of the closes on the failure paths are dropped, as in the source.\<close>

definition Open ::
  "FileSnapshotStore \<Rightarrow> string \<Rightarrow> faults \<Rightarrow> 'cfg filesystem \<Rightarrow>
   (error + 'cfg SnapshotMeta \<times> bufferedFile) \<times> 'cfg filesystem" where
  "Open f id' F fs =
     (case readMeta f id' fs of
        Inl err \<Rightarrow> (Inl err, fs)
      | Inr m \<Rightarrow>
          (case os_Open_state id' (open_err F) fs of
             (Inl err, fs1) \<Rightarrow> (Inl err, fs1)
           | (Inr h, fs1) \<Rightarrow>
               (case io_Copy_hash h (copy_err F) fs1 of
                  (Inl err, h1) \<Rightarrow> (Inl err, snd (File_Close h1 (fclose_err F) fs1))
                | (Inr crc, h1) \<Rightarrow>
                    (let computed = hash_Sum crc in
                     if \<not> bytes_Equal (CRC m) computed
                     then (Inl (Errorf ''CRC mismatch''), snd (File_Close h1 (fclose_err F) fs1))
                     else
                       (case File_Seek h1 0 (seek_err F) fs1 of
                          Inl err \<Rightarrow> (Inl err, snd (File_Close h1 (fclose_err F) fs1))
                        | Inr h2 \<Rightarrow>
                            (Inr (SnapshotMeta.truncate m, \<lparr>bh = [], fh = h2\<rparr>), fs1))))))"

subsection \<open>Reading through the returned reader\<close>

text \<open>
  \<open>(*os.File).Read\<close> of at most \<open>n\<close> bytes at the offset of the handle; nothing at the
  end of the file or on a closed file.  \<open>(*bufferedFile).Read\<close> is the \<open>Read\<close> of
  \<open>bufio.Reader\<close>: from the buffer when it holds bytes, else straight from the file
  for a large read, else after one read that fills the buffer.  \<open>unread\<close> is what is
  still to come: the buffer, then the file from the offset on.
\<close>

definition File_Read :: "os_File \<Rightarrow> nat \<Rightarrow> 'cfg filesystem \<Rightarrow> byte list \<times> os_File" where
  "File_Read h n fs =
     (if \<not> is_open fs h then ([], h)
      else
        (let c = (case state_content fs (fdir h) of Some c \<Rightarrow> c | None \<Rightarrow> []);
             bs = take n (drop (pos h) c)
         in (bs, h\<lparr>pos := pos h + length bs\<rparr>)))"

definition bufferedFile_Read :: "bufferedFile \<Rightarrow> nat \<Rightarrow> 'cfg filesystem \<Rightarrow> byte list \<times> bufferedFile" where
  "bufferedFile_Read b n fs =
     (if n = 0 then ([], b)
      else if bh b = [] then
        (if n \<ge> defaultBufSize
         then (case File_Read (fh b) n fs of (bs, h) \<Rightarrow> (bs, b\<lparr>fh := h\<rparr>))
         else (case File_Read (fh b) defaultBufSize fs of
                 (bs, h) \<Rightarrow> (take n bs, \<lparr>bh = drop n bs, fh = h\<rparr>)))
      else (take n (bh b), b\<lparr>bh := drop n (bh b)\<rparr>))"

definition unread :: "bufferedFile \<Rightarrow> 'cfg filesystem \<Rightarrow> byte list" where
  "unread b fs = bh b @ drop (pos (fh b)) (case state_content fs (fdir (fh b)) of Some c \<Rightarrow> c | None \<Rightarrow> [])"

lemma drop_length_take: "drop (length (take n xs)) xs = drop n xs"
  by (cases "n \<le> length xs") (simp_all add: min_def)

lemma split_read: "drop p c = take n (drop p c) @ drop (p + length (take n (drop p c))) c"
proof -
  have a: "drop (length (take n (drop p c))) (drop p c) = drop n (drop p c)"
    by (rule drop_length_take)
  have b: "drop (length (take n (drop p c))) (drop p c) = drop (p + length (take n (drop p c))) c"
    by (simp only: drop_drop add.commute)
  show ?thesis by (metis a b append_take_drop_id)
qed

lemma File_Read_unread:
  assumes "File_Read h n fs = (bs, h')"
  shows "fdir h' = fdir h \<and>
         drop (pos h) (case state_content fs (fdir h) of Some c \<Rightarrow> c | None \<Rightarrow> []) =
           bs @ drop (pos h') (case state_content fs (fdir h) of Some c \<Rightarrow> c | None \<Rightarrow> []) \<or> bs = []"
  using assms split_read [of "pos h" _ n]
  by (auto simp: File_Read_def Let_def split: if_splits)

lemma bufferedFile_Read_unread:
  assumes "bufferedFile_Read b n fs = (bs, b')" "bs \<noteq> []"
  shows "unread b fs = bs @ unread b' fs"
proof (cases "bh b = []")
  case False
  with assms show ?thesis
    by (auto simp: bufferedFile_Read_def unread_def split: if_splits)
next
  case True
  show ?thesis
  proof (cases "n \<ge> defaultBufSize")
    case big: True
    with assms True obtain h where r: "File_Read (fh b) n fs = (bs, h)" and b': "b' = b\<lparr>fh := h\<rparr>"
      by (auto simp: bufferedFile_Read_def split: if_splits prod.splits)
    from File_Read_unread [OF r] assms(2) True b' show ?thesis
      by (auto simp: unread_def)
  next
    case small: False
    with assms True obtain bs0 h where r: "File_Read (fh b) defaultBufSize fs = (bs0, h)"
      and b': "b' = \<lparr>bh = drop n bs0, fh = h\<rparr>" and bs: "bs = take n bs0"
      by (auto simp: bufferedFile_Read_def split: if_splits prod.splits)
    from bs assms(2) have "bs0 \<noteq> []" by auto
    with File_Read_unread [OF r] True b' bs show ?thesis
      by (auto simp: unread_def)
  qed
qed

text \<open>\<open>io.ReadAll\<close> on the reader: read until a read returns nothing.\<close>

function ReadAll :: "bufferedFile \<Rightarrow> 'cfg filesystem \<Rightarrow> byte list" where
  "ReadAll b fs =
     (case bufferedFile_Read b 512 fs of
        (bs, b') \<Rightarrow> if bs = [] then [] else bs @ ReadAll b' fs)"
  by pat_completeness auto
termination
  apply (relation "measure (\<lambda>(b, fs). length (unread b fs))")
   apply simp
  apply (auto dest!: sym [of "(_, _)" "bufferedFile_Read _ _ _"] bufferedFile_Read_unread)
  done

declare ReadAll.simps [simp del]

lemma bufferedFile_Read_empty:
  assumes "bufferedFile_Read b 512 fs = ([], b')" "is_open fs (fh b)"
  shows "unread b fs = []"
  using assms
  by (auto simp: bufferedFile_Read_def unread_def File_Read_def Let_def defaultBufSize_def
           split: if_splits prod.splits)

lemma bufferedFile_Read_open:
  assumes "bufferedFile_Read b n fs = (bs, b')" "is_open fs (fh b)"
  shows "is_open fs (fh b')"
  using assms
  by (auto simp: bufferedFile_Read_def File_Read_def Let_def is_open_def
           split: if_splits prod.splits)

lemma ReadAll_unread: "is_open fs (fh b) \<Longrightarrow> ReadAll b fs = unread b fs"
proof (induction b fs rule: ReadAll.induct)
  case (1 b fs)
  obtain bs b' where r: "bufferedFile_Read b 512 fs = (bs, b')"
    by (cases "bufferedFile_Read b 512 fs")
  show ?case
  proof (cases "bs = []")
    case True
    with r bufferedFile_Read_empty [of b fs b'] "1.prems" show ?thesis
      by (simp add: ReadAll.simps [of b])
  next
    case False
    from "1.IH" [OF r [symmetric] False] bufferedFile_Read_open [OF r "1.prems"]
    have "ReadAll b' fs = unread b' fs" by simp
    with r False bufferedFile_Read_unread [OF r False] show ?thesis
      by (simp add: ReadAll.simps [of b])
  qed
qed

subsection \<open>Reaping, Close and Cancel\<close>

text \<open>
  The loop of \<open>ReapSnapshots\<close>, \<open>for i := f.retain; i < len(snapshots); i++\<close>.  An
  index below zero panics.  An ID is taken as the name of a child of the directory.
\<close>

function reap_loop ::
  "faults \<Rightarrow> 'cfg fileSnapshotMeta list \<Rightarrow> int \<Rightarrow> 'cfg filesystem \<Rightarrow>
   error option \<times> 'cfg filesystem" where
  "reap_loop F snapshots i fs =
     (if i < int (length snapshots)
      then
        (if i < 0 then (Some (Panic ''index out of range''), fs)
         else
           (case os_RemoveAll (ID (snapshots ! nat i)) (removeAll_err F (ID (snapshots ! nat i))) fs of
              (Some err, fs1) \<Rightarrow> (Some err, fs1)
            | (None, fs1) \<Rightarrow> reap_loop F snapshots (i + 1) fs1))
      else (None, fs))"
  by pat_completeness auto
termination
  by (relation "measure (\<lambda>(F, snapshots, i, fs). nat (int (length snapshots) - i))") auto

declare reap_loop.simps [simp del]

definition ReapSnapshots ::
  "FileSnapshotStore \<Rightarrow> environment \<Rightarrow> faults \<Rightarrow> 'cfg filesystem \<Rightarrow>
   error option \<times> 'cfg filesystem" where
  "ReapSnapshots f E F fs =
     (case getSnapshots f E F fs of
        Inl err \<Rightarrow> (Some err, fs)
      | Inr snapshots \<Rightarrow> reap_loop F snapshots (retain f) fs)"

definition Close ::
  "'cfg FileSnapshotSink \<Rightarrow> environment \<Rightarrow> faults \<Rightarrow> 'cfg filesystem \<Rightarrow>
   error option \<times> 'cfg FileSnapshotSink \<times> 'cfg filesystem" where
  "Close s E F fs =
     (if closed s then (None, s, fs)
      else
        (case finalize (s\<lparr>closed := True\<rparr>) F fs of
           (Some err, s1, fs1) \<Rightarrow>
             (case os_RemoveAll (dir s1) (removeAll_err F (dir s1)) fs1 of
                (Some delErr, fs2) \<Rightarrow> (Some delErr, s1, fs2)
              | (None, fs2) \<Rightarrow> (Some err, s1, fs2))
         | (None, s1, fs1) \<Rightarrow>
             (case writeMeta s1 F fs1 of
                (Some err, fs2) \<Rightarrow> (Some err, s1, fs2)
              | (None, fs2) \<Rightarrow>
                  (let newPath = TrimSuffix (dir s1) tmpSuffix in
                   case os_Rename (dir s1) newPath (rename_err F) fs2 of
                     (Some err, fs3) \<Rightarrow> (Some err, s1, fs3)
                   | (None, fs3) \<Rightarrow>
                       (case (if \<not> sink_noSync s1 \<and> GOOS E \<noteq> ''windows''
                              then (case parent_open_err F of
                                      Some err \<Rightarrow> Some err
                                    | None \<Rightarrow> parent_sync_err F)
                              else None) of
                          Some err \<Rightarrow> (Some err, s1, fs3)
                        | None \<Rightarrow>
                            (case ReapSnapshots (store s1) E F fs3 of
                               (Some err, fs4) \<Rightarrow> (Some err, s1, fs4)
                             | (None, fs4) \<Rightarrow> (None, s1, fs4)))))))"

definition Cancel ::
  "'cfg FileSnapshotSink \<Rightarrow> faults \<Rightarrow> 'cfg filesystem \<Rightarrow>
   error option \<times> 'cfg FileSnapshotSink \<times> 'cfg filesystem" where
  "Cancel s F fs =
     (if closed s then (None, s, fs)
      else
        (case finalize (s\<lparr>closed := True\<rparr>) F fs of
           (Some err, s1, fs1) \<Rightarrow> (Some err, s1, fs1)
         | (None, s1, fs1) \<Rightarrow>
             (case os_RemoveAll (dir s1) (removeAll_err F (dir s1)) fs1 of
                (err, fs2) \<Rightarrow> (err, s1, fs2))))"

subsection \<open>What a sink has taken\<close>

text \<open>
  \<open>tracks s fs data\<close>: the state file of the sink lives in its directory and is open,
  and unless a write has failed, the bytes in the file followed by the bytes in the
  buffer are \<open>data\<close>, and the hash has seen exactly the bytes in the file.
\<close>

definition tracks :: "'cfg FileSnapshotSink \<Rightarrow> 'cfg filesystem \<Rightarrow> byte list \<Rightarrow> bool" where
  "tracks s fs data \<longleftrightarrow>
     fdir (stateFile s) = dir s \<and> is_open fs (stateFile s) \<and>
     (werr (buffered s) = None \<longrightarrow>
        (\<exists>c. state_content fs (dir s) = Some c \<and> c @ buf (buffered s) = data \<and>
             stateHash s = hash_Write 0 c))"

subsection \<open>A directory the store keeps by itself\<close>

text \<open>
  \<open>Close\<close> installs a snapshot in the directory named by the ID in its metadata, and
  \<open>ReapSnapshots\<close> removes a snapshot by the ID in its metadata.  \<open>names_are_IDs\<close>
  says that the two agree on a disk: entry names are unique, and a directory without
  the \<open>.tmp\<close> suffix whose metadata decodes is named by the ID the metadata carries.
  \<open>supported\<close> is the version test of \<open>getSnapshots\<close>.
\<close>

definition names_are_IDs :: "'cfg filesystem \<Rightarrow> bool" where
  "names_are_IDs fs \<longleftrightarrow>
     distinct (map fst (entries fs)) \<and>
     (\<forall>name sd m. lookup fs name = Some (Directory sd) \<longrightarrow> meta_json sd = Some (Decodes m) \<longrightarrow>
        \<not> HasSuffix name tmpSuffix \<longrightarrow> ID m = name)"

definition supported :: "environment \<Rightarrow> ('cfg, 'more) SnapshotMeta_scheme \<Rightarrow> bool" where
  "supported E m \<longleftrightarrow> \<not> (Version m < SnapshotVersionMin E \<or> Version m > SnapshotVersionMax E)"

subsection \<open>The order List presents, in the words of the specification\<close>

text \<open>
  Newest first: by term descending, then by index descending, then by ID descending.
  \<open>newest_first a b\<close> says that \<open>a\<close> may stand before \<open>b\<close>.
\<close>

definition newest_first ::
  "('cfg, 'more) SnapshotMeta_scheme \<Rightarrow> ('cfg, 'more) SnapshotMeta_scheme \<Rightarrow> bool" where
  "newest_first a b =
     (Term b < Term a \<or>
      (Term a = Term b \<and> (Index b < Index a \<or> (Index a = Index b \<and> ID b \<le> ID a))))"

subsection \<open>Concrete stores, disks and sinks\<close>

text \<open>Inputs on which the operations are run in the examples below.\<close>

definition demo_env :: environment where
  "demo_env = \<lparr>GOOS = ''linux'', SnapshotVersionMin = 0, SnapshotVersionMax = 1\<rparr>"

definition demo_store :: "int \<Rightarrow> FileSnapshotStore" where
  "demo_store r = \<lparr>path = ''base/snapshots'', retain = r, noSync = False\<rparr>"

definition demo_meta :: "uint64 \<Rightarrow> uint64 \<Rightarrow> string \<Rightarrow> unit fileSnapshotMeta" where
  "demo_meta t i name =
     \<lparr>Version = 1, ID = name, Index = i, Term = t, Peers = [], Configuration = (),
      ConfigurationIndex = 0, Size = 0, CRC = hash_Sum 0\<rparr>"

definition demo_snapshot :: "uint64 \<Rightarrow> uint64 \<Rightarrow> string \<Rightarrow> string \<times> unit node" where
  "demo_snapshot t i name =
     (name, Directory \<lparr>meta_json = Some (Decodes (demo_meta t i name)), state_bin = Some []\<rparr>)"

text \<open>
  Three finalized snapshots, a regular file, a snapshot still under its temporary name
  and a directory whose metadata does not decode.
\<close>

definition demo_disk :: "unit filesystem" where
  "demo_disk =
     \<lparr>entries =
        [demo_snapshot 1 5 ''1-5-100'',
         (''notes.txt'', RegularFile []),
         demo_snapshot 2 9 ''2-9-300'',
         (''2-9-400.tmp'', Directory \<lparr>meta_json = Some (Decodes (demo_meta 2 9 ''2-9-400'')),
                                     state_bin = Some []\<rparr>),
         (''broken'', Directory \<lparr>meta_json = Some Undecodable, state_bin = None\<rparr>),
         demo_snapshot 2 7 ''2-7-200''],
      open_fds = []\<rparr>"

text \<open>
  The sink \<open>Create\<close> returns on an empty disk for term 3 and index 10 when the clock
  reads 5 ms, and the disk it leaves.
\<close>

definition demo_sink :: "unit FileSnapshotSink" where
  "demo_sink =
     \<lparr>store = demo_store 1, dir = ''3-10-5.tmp'', parentDir = ''base/snapshots'',
      meta = \<lparr>Version = 1, ID = ''3-10-5'', Index = 10, Term = 3, Peers = [],
              Configuration = (), ConfigurationIndex = 2, Size = 0, CRC = []\<rparr>,
      sink_noSync = False, stateFile = \<lparr>fd = 1, fdir = ''3-10-5.tmp'', pos = 0\<rparr>,
      stateHash = 0, buffered = \<lparr>buf = [], werr = None\<rparr>, closed = False\<rparr>"

definition demo_sink_disk :: "unit filesystem" where
  "demo_sink_disk =
     \<lparr>entries = [(''3-10-5.tmp'',
                  Directory \<lparr>meta_json = Some (Decodes (meta demo_sink)), state_bin = Some []\<rparr>)],
      open_fds = [1]\<rparr>"

text \<open>
  A body of four bytes, a disk that already holds a newer snapshot, and the run that
  writes the body to a sink and closes it.
\<close>

definition abcd :: "byte list" where
  "abcd = [97, 98, 99, 100]"

definition crowded_disk :: "unit filesystem" where
  "crowded_disk = \<lparr>entries = [demo_snapshot 5 20 ''5-20-9''], open_fds = []\<rparr>"

definition write_and_close ::
  "unit FileSnapshotSink \<Rightarrow> unit filesystem \<Rightarrow>
   error option \<times> unit FileSnapshotSink \<times> unit filesystem" where
  "write_and_close s fs =
     Close (fst (Writes s [(abcd, [])] fs)) demo_env no_faults (snd (Writes s [(abcd, [])] fs))"

text \<open>The example disk after a store retaining two has created a snapshot on it.\<close>

definition retaining_two_sink :: "unit FileSnapshotSink" where
  "retaining_two_sink = demo_sink\<lparr>store := demo_store 2\<rparr>"

definition demo_disk_with_sink :: "unit filesystem" where
  "demo_disk_with_sink =
     demo_disk\<lparr>entries := entries demo_disk @ entries demo_sink_disk, open_fds := [1]\<rparr>"

text \<open>Environments in which some system calls fail.\<close>

definition sync_fails :: faults where
  "sync_fails = no_faults\<lparr>sync_err := Some (Errno EIO)\<rparr>"

definition sync_and_remove_fail :: faults where
  "sync_and_remove_fail =
     no_faults\<lparr>sync_err := Some (Errno EIO), removeAll_err := (\<lambda>p. Some (Errno ENOTEMPTY))\<rparr>"

section \<open>Properties of the snapshot store\<close>

subsection \<open>The directory as a map\<close>

lemma lookup_put_entry [simp]:
  "lookup (put_entry n x fs) m = (if m = n then Some x else lookup fs m)"
  by (simp add: lookup_def put_entry_def update_conv')

lemma lookup_del_entry [simp]:
  "lookup (del_entry n fs) m = (if m = n then None else lookup fs m)"
  by (simp add: lookup_def del_entry_def delete_conv')

lemma lookup_open_fds_update [simp]: "lookup (fs\<lparr>open_fds := x\<rparr>) n = lookup fs n"
  by (simp add: lookup_def)

lemma state_content_open_fds_update [simp]:
  "state_content (fs\<lparr>open_fds := x\<rparr>) n = state_content fs n"
  by (simp add: state_content_def)

lemma open_fds_put_entry [simp]: "open_fds (put_entry n x fs) = open_fds fs"
  by (simp add: put_entry_def)

lemma open_fds_del_entry [simp]: "open_fds (del_entry n fs) = open_fds fs"
  by (simp add: del_entry_def)

lemma fold_max_mono: "(b::nat) \<le> fold max ys b"
  by (induction ys arbitrary: b) (auto intro: order_trans [OF max.cobounded2])

lemma fold_max_ge: "(x::nat) \<in> set xs \<Longrightarrow> x \<le> fold max xs a"
proof (induction xs arbitrary: a)
  case Nil
  then show ?case by simp
next
  case (Cons y ys)
  then show ?case
    by (auto intro: order_trans [OF max.cobounded1 fold_max_mono])
qed

lemma fresh_fd_notin: "fresh_fd fds \<notin> set fds"
  using fold_max_ge [of "fresh_fd fds" fds 0] by (auto simp: fresh_fd_def)

lemma removeAll_fresh: "removeAll (fresh_fd fds) fds = fds"
  by (simp add: fresh_fd_notin)

text \<open>Unfolding sets for running the operations on concrete inputs.\<close>

lemmas os_defs = lookup_def put_entry_def del_entry_def empty_dir_def os_MkdirAll_def
  os_RemoveAll_def os_Rename_def os_ReadDir_def fresh_fd_def is_open_def os_open_fd_def
  File_Close_def state_content_def file_append_def File_Write_def File_Sync_def File_Stat_def
  File_Seek_def os_Create_state_def os_Open_state_def io_Copy_hash_def bytes_Equal_def

lemmas name_defs = snapshotName_def fmt_uint64_def fmt_int_def go_div_def digits.simps
  digit_char_def tmpSuffix_def HasSuffix_def TrimSuffix_def

lemmas store_defs = Create_def writeMeta_def Write_def bufio_Write_loop.simps bufio_Flush_def
  multi_Write_def Available_def defaultBufSize_def finalize_def readMeta_def getSnapshots_def
  sort_Sort_def Reverse_def Less_def List_def Open_def reap_loop.simps ReapSnapshots_def
  Close_def Cancel_def Sink_ID_def no_faults_def Let_def finalized_def

lemmas demo_defs = demo_env_def demo_store_def demo_meta_def demo_snapshot_def demo_disk_def
  demo_sink_def demo_sink_disk_def sync_fails_def sync_and_remove_fail_def
  retaining_two_sink_def demo_disk_with_sink_def

lemmas run_defs = abcd_def crowded_disk_def write_and_close_def

lemma demo_Create:
  "Create (demo_store 1) 1 10 3 () 2 () (\<lambda>c t. []) 5000000 no_faults
      \<lparr>entries = [], open_fds = []\<rparr> = (Inr demo_sink, demo_sink_disk)"
  by (simp add: demo_defs os_defs name_defs store_defs)

subsection \<open>Construction\<close>

text \<open>
  Claim C10.  For every \<open>retain\<close> below 1 the constructor returns the error
  \<open>must retain at least one snapshot\<close> and no store, and leaves the disk alone; every
  store the constructor does return has the \<open>retain\<close> it was given, which is at
  least 1.
\<close>

theorem store_retain_at_least_one:
  "(retain_arg < 1 \<longrightarrow>
      NewFileSnapshotStoreWithLogger base retain_arg F fs =
        (Inl (Errorf ''must retain at least one snapshot''), fs)) \<and>
   (\<forall>st fs'. NewFileSnapshotStoreWithLogger base retain_arg F fs = (Inr st, fs') \<longrightarrow>
      1 \<le> retain st \<and> retain st = retain_arg)"
  by (auto simp: NewFileSnapshotStoreWithLogger_def Let_def
           split: if_splits option.splits prod.splits)

theorem store_retain_at_least_one_witness:
  "NewFileSnapshotStoreWithLogger ''base'' 0 no_faults
      (\<lparr>entries = [], open_fds = []\<rparr> :: unit filesystem) =
     (Inl (Errorf ''must retain at least one snapshot''), \<lparr>entries = [], open_fds = []\<rparr>) \<and>
   NewFileSnapshotStoreWithLogger ''base'' 2 no_faults
      (\<lparr>entries = [], open_fds = []\<rparr> :: unit filesystem) =
     (Inr \<lparr>path = ''base/snapshots'', retain = 2, noSync = False\<rparr>,
      \<lparr>entries = [], open_fds = []\<rparr>) \<and>
   (1::int) \<le> retain \<lparr>path = ''base/snapshots'', retain = 2, noSync = False\<rparr>"
proof -
  have built: "NewFileSnapshotStoreWithLogger ''base'' 2 no_faults
      (\<lparr>entries = [], open_fds = []\<rparr> :: unit filesystem) =
     (Inr \<lparr>path = ''base/snapshots'', retain = 2, noSync = False\<rparr>,
      \<lparr>entries = [], open_fds = []\<rparr>)"
    by (simp add: NewFileSnapshotStoreWithLogger_def no_faults_def testPermissions_def
        lookup_def put_entry_def del_entry_def testPath_def filepath_Join_def snapPath_def)
  from store_retain_at_least_one
         [of 0 "''base''" no_faults "\<lparr>entries = [], open_fds = []\<rparr> :: unit filesystem"]
       store_retain_at_least_one
         [of 2 "''base''" no_faults "\<lparr>entries = [], open_fds = []\<rparr> :: unit filesystem"]
       built
  show ?thesis by simp
qed

subsection \<open>Close and Cancel run once\<close>

lemma finalize_closed: "finalize s F fs = (e, s', fs') \<Longrightarrow> closed s' = closed s"
  by (auto simp: finalize_def bufio_Flush_def multi_Write_def Let_def
           split: if_splits option.splits prod.splits sum.splits)

lemma Close_closed: "Close s E F fs = (e, s', fs') \<Longrightarrow> closed s'"
  by (auto simp: Close_def Let_def dest!: finalize_closed
           split: if_splits option.splits prod.splits)

lemma Cancel_closed: "Cancel s F fs = (e, s', fs') \<Longrightarrow> closed s'"
  by (auto simp: Cancel_def Let_def dest!: finalize_closed
           split: if_splits option.splits prod.splits)

text \<open>
  Claim C9.  Once \<open>Close\<close> or \<open>Cancel\<close> has been called on a sink, whatever it
  returned, a later \<open>Close\<close> and a later \<open>Cancel\<close> on the sink it left return
  \<open>nil\<close> and change neither the sink nor the disk, whatever the disk holds by then and
  whatever the environment would do to a system call.  The sink is unchanged, so the
  same holds for every call after that.
\<close>

theorem Close_Cancel_idempotent:
  assumes "Close s E F fs = (e, s', fs') \<or> Cancel s F fs = (e, s', fs')"
  shows "Close s' E2 F2 fs2 = (None, s', fs2) \<and> Cancel s' F3 fs3 = (None, s', fs3)"
proof -
  from assms have "closed s'" by (auto dest: Close_closed Cancel_closed)
  then show ?thesis by (simp add: Close_def Cancel_def)
qed

text \<open>Some sink, cancelled under some faults: both calls after that do nothing.\<close>

theorem Close_Cancel_idempotent_witness:
  "\<exists>e s' fs'.
     Cancel \<lparr>store = \<lparr>path = ''base/snapshots'', retain = 1, noSync = False\<rparr>,
             dir = ''3-10-5.tmp'', parentDir = ''base/snapshots'',
             meta = \<lparr>Version = 1, ID = ''3-10-5'', Index = 10, Term = 3, Peers = [],
                     Configuration = (), ConfigurationIndex = 2, Size = 0, CRC = []\<rparr>,
             sink_noSync = False, stateFile = \<lparr>fd = 1, fdir = ''3-10-5.tmp'', pos = 0\<rparr>,
             stateHash = 0, buffered = \<lparr>buf = [], werr = None\<rparr>, closed = False\<rparr>
       no_faults
       \<lparr>entries = [(''3-10-5.tmp'', Directory \<lparr>meta_json = None, state_bin = Some []\<rparr>)],
        open_fds = [1]\<rparr> = (e, s', fs') \<and>
     Close s' \<lparr>GOOS = ''linux'', SnapshotVersionMin = 0, SnapshotVersionMax = 1\<rparr> no_faults fs'
       = (None, s', fs') \<and>
     Cancel s' no_faults fs' = (None, s', fs')"
proof -
  let ?s = "\<lparr>store = \<lparr>path = ''base/snapshots'', retain = 1, noSync = False\<rparr>,
             dir = ''3-10-5.tmp'', parentDir = ''base/snapshots'',
             meta = \<lparr>Version = 1, ID = ''3-10-5'', Index = 10, Term = 3, Peers = [],
                     Configuration = (), ConfigurationIndex = 2, Size = 0, CRC = []\<rparr>,
             sink_noSync = False, stateFile = \<lparr>fd = 1, fdir = ''3-10-5.tmp'', pos = 0\<rparr>,
             stateHash = 0, buffered = \<lparr>buf = [], werr = None\<rparr>, closed = False\<rparr>"
  let ?fs = "\<lparr>entries = [(''3-10-5.tmp'', Directory \<lparr>meta_json = None, state_bin = Some []\<rparr>)],
        open_fds = [1]\<rparr> :: unit filesystem"
  obtain e s' fs' where c: "Cancel ?s no_faults ?fs = (e, s', fs')"
    by (cases "Cancel ?s no_faults ?fs") auto
  from Close_Cancel_idempotent [of ?s _ _ ?fs e s' fs'] c
  show ?thesis by blast
qed

subsection \<open>Open checks the checksum\<close>

text \<open>
  Claim C2.  When the metadata of a snapshot can be read, its state file is there and
  can be opened and read, and the CRC64-ECMA checksum of the bytes of the state file
  is not the checksum recorded in the metadata, \<open>Open\<close> returns the error
  \<open>CRC mismatch\<close> and no reader, and the file system is as it was before the call:
  the descriptor \<open>Open\<close> obtained for the state file is released again.
\<close>

theorem Open_CRC_mismatch:
  assumes meta: "readMeta f id' fs = Inr m"
    and state: "state_content fs id' = Some c"
    and io: "open_err F = None" "copy_err F = None"
    and differ: "hash_Sum (hash_Write 0 c) \<noteq> CRC m"
  shows "Open f id' F fs = (Inl (Errorf ''CRC mismatch''), fs)"
  using assms
  by (auto simp: Open_def os_Open_state_def os_open_fd_def io_Copy_hash_def is_open_def
      File_Close_def bytes_Equal_def Let_def removeAll_fresh)

text \<open>A snapshot whose metadata records no checksum at all, with the body abcd.\<close>

theorem Open_CRC_mismatch_witness:
  "Open \<lparr>path = ''base/snapshots'', retain = 1, noSync = False\<rparr> ''3-10-5'' no_faults
     \<lparr>entries = [(''3-10-5'', Directory
         \<lparr>meta_json = Some (Decodes
            \<lparr>Version = 1, ID = ''3-10-5'', Index = 10, Term = 3, Peers = [],
             Configuration = (), ConfigurationIndex = 2, Size = 4, CRC = []\<rparr>),
          state_bin = Some [97, 98, 99, 100]\<rparr>)],
      open_fds = []\<rparr> =
   (Inl (Errorf ''CRC mismatch''),
     \<lparr>entries = [(''3-10-5'', Directory
         \<lparr>meta_json = Some (Decodes
            \<lparr>Version = 1, ID = ''3-10-5'', Index = 10, Term = 3, Peers = [],
             Configuration = (), ConfigurationIndex = 2, Size = 4, CRC = []\<rparr>),
          state_bin = Some [97, 98, 99, 100]\<rparr>)],
      open_fds = []\<rparr>)"
  by (rule Open_CRC_mismatch
        [where c = "[97, 98, 99, 100]"
           and m = "\<lparr>Version = 1, ID = ''3-10-5'', Index = 10, Term = 3, Peers = [],
                    Configuration = (), ConfigurationIndex = 2, Size = 4, CRC = []\<rparr>"])
     (simp_all add: readMeta_def lookup_def state_content_def no_faults_def hash_Sum_def)

subsection \<open>A failing finalize\<close>

lemma lookup_file_append:
  "lookup (file_append d p fs) n =
     (if n = d then
        (case lookup fs d of
           Some (Directory sd) \<Rightarrow>
             (case state_bin sd of
                Some c \<Rightarrow> Some (Directory (sd\<lparr>state_bin := Some (c @ p)\<rparr>))
              | None \<Rightarrow> lookup fs d)
         | other \<Rightarrow> other)
      else lookup fs n)"
  by (auto simp: file_append_def split: option.splits node.splits)

lemma lookup_file_append_other [simp]:
  "n \<noteq> d \<Longrightarrow> lookup (file_append d p fs) n = lookup fs n"
  by (simp add: lookup_file_append)

lemma open_fds_file_append [simp]: "open_fds (file_append d p fs) = open_fds fs"
  by (auto simp: file_append_def split: option.splits node.splits)

lemma multi_Write_frame:
  assumes "multi_Write s p w fs = (r, s', fs')"
  shows "dir s' = dir s \<and> stateFile s' = stateFile s \<and> closed s' = closed s \<and>
         store s' = store s \<and> meta s' = meta s \<and> sink_noSync s' = sink_noSync s \<and>
         buffered s' = buffered s \<and>
         open_fds fs' = open_fds fs \<and>
         (\<forall>n. n \<noteq> fdir (stateFile s) \<longrightarrow> lookup fs' n = lookup fs n)"
  using assms
  by (auto simp: multi_Write_def File_Write_def split: if_splits option.splits prod.splits)

lemma bufio_Flush_frame:
  assumes "bufio_Flush s w fs = (e, s', fs')"
  shows "dir s' = dir s \<and> stateFile s' = stateFile s \<and> closed s' = closed s \<and>
         store s' = store s \<and> meta s' = meta s \<and> sink_noSync s' = sink_noSync s \<and>
         open_fds fs' = open_fds fs \<and>
         (\<forall>n. n \<noteq> fdir (stateFile s) \<longrightarrow> lookup fs' n = lookup fs n)"
  using assms
  by (auto simp: bufio_Flush_def Let_def dest!: multi_Write_frame
           split: if_splits option.splits prod.splits)

lemma finalize_frame:
  assumes "finalize s F fs = (e, s', fs')"
  shows "dir s' = dir s \<and> stateFile s' = stateFile s \<and> closed s' = closed s \<and>
         store s' = store s \<and> sink_noSync s' = sink_noSync s \<and>
         ID (meta s') = ID (meta s) \<and>
         (\<forall>n. n \<noteq> fdir (stateFile s) \<longrightarrow> lookup fs' n = lookup fs n)"
  using assms
  by (auto simp: finalize_def File_Close_def Let_def dest!: bufio_Flush_frame
           split: if_splits option.splits prod.splits sum.splits)

text \<open>
  Claim C8 as stated fails where the removal of the temporary directory fails too.  On
  the sink that \<open>Create\<close> returned, with an environment in which the sync of the
  state file and the removal both fail: \<open>finalize\<close> fails, \<open>Close\<close> returns the error
  of the removal, and the temporary directory is still there.
\<close>

theorem Close_failed_finalize_counterexample:
  "fst (finalize (demo_sink\<lparr>closed := True\<rparr>) sync_and_remove_fail demo_sink_disk)
     = Some (Errno EIO) \<and>
   fst (Close demo_sink demo_env sync_and_remove_fail demo_sink_disk) = Some (Errno ENOTEMPTY) \<and>
   lookup (snd (snd (Close demo_sink demo_env sync_and_remove_fail demo_sink_disk)))
     (dir demo_sink) \<noteq> None"
  by (simp add: demo_defs os_defs name_defs store_defs)

text \<open>
  Claim C8, amended.  On a sink that is not closed and whose state file lives in its
  directory (as for every sink \<open>Create\<close> returns): when a step of \<open>finalize\<close> fails,
  \<open>Close\<close> returns an error.  It calls \<open>os.RemoveAll\<close> on the temporary directory;
  when that succeeds the directory is gone and the error is the one of \<open>finalize\<close>,
  when it fails the error is the one of the removal and the disk stays as \<open>finalize\<close>
  left it.  In both cases no other entry of the snapshot directory changes, so nothing
  appears under the final name.
\<close>

theorem Close_after_failed_finalize:
  assumes "\<not> closed s" and "fdir (stateFile s) = dir s"
    and "finalize (s\<lparr>closed := True\<rparr>) F fs = (Some err, s1, fs1)"
  shows "\<exists>e fs'. Close s E F fs = (Some e, s1, fs') \<and>
           (removeAll_err F (dir s) = None \<longrightarrow> e = err \<and> lookup fs' (dir s) = None) \<and>
           (\<forall>delErr. removeAll_err F (dir s) = Some delErr \<longrightarrow> e = delErr \<and> fs' = fs1) \<and>
           (\<forall>n. n \<noteq> dir s \<longrightarrow> lookup fs' n = lookup fs n)"
proof -
  from finalize_frame [OF assms(3)] assms(2)
  have fr: "dir s1 = dir s" "\<forall>n. n \<noteq> dir s \<longrightarrow> lookup fs1 n = lookup fs n"
    by auto
  show ?thesis
    using assms(1,3) fr
    by (cases "removeAll_err F (dir s)") (auto simp: Close_def os_RemoveAll_def)
qed

theorem Close_after_failed_finalize_witness:
  "fst (finalize (demo_sink\<lparr>closed := True\<rparr>) sync_fails demo_sink_disk) = Some (Errno EIO) \<and>
   fst (Close demo_sink demo_env sync_fails demo_sink_disk) = Some (Errno EIO) \<and>
   lookup (snd (snd (Close demo_sink demo_env sync_fails demo_sink_disk))) (dir demo_sink) = None"
proof -
  obtain s1 fs1 where fin:
    "finalize (demo_sink\<lparr>closed := True\<rparr>) sync_fails demo_sink_disk = (Some (Errno EIO), s1, fs1)"
    by (simp add: demo_defs os_defs name_defs store_defs)
  have a: "\<not> closed demo_sink" "fdir (stateFile demo_sink) = dir demo_sink"
    "removeAll_err sync_fails (dir demo_sink) = None"
    by (simp_all add: demo_sink_def sync_fails_def no_faults_def)
  from Close_after_failed_finalize [OF a(1,2) fin, of demo_env] a(3) fin
  show ?thesis by auto
qed

subsection \<open>The order of the snapshots\<close>

lemma Less_asym: "Less a b \<Longrightarrow> \<not> Less b a"
  by (auto simp: Less_def split: if_splits)

lemma Less_negtrans: "\<not> Less a b \<Longrightarrow> \<not> Less b c \<Longrightarrow> \<not> Less a c"
  by (auto simp: Less_def split: if_splits)

lemma Less_total:
  "\<not> Less a b \<Longrightarrow> \<not> Less b a \<Longrightarrow> Term a = Term b \<and> Index a = Index b \<and> ID a = ID b"
  by (auto simp: Less_def split: if_splits)

lemma newest_first_iff: "newest_first a b \<longleftrightarrow> \<not> Less a b"
  by (auto simp: newest_first_def Less_def)

lemma newest_first_truncate [simp]:
  "newest_first (SnapshotMeta.truncate a) (SnapshotMeta.truncate b) = newest_first a b"
  by (simp add: newest_first_def SnapshotMeta.truncate_def)

lemma set_sift [simp]: "set (sift lt x ys) = insert x (set ys)"
  by (induction ys) auto

lemma mset_sift [simp]: "mset (sift lt x ys) = add_mset x (mset ys)"
  by (induction ys) auto

lemma sorted_sift:
  assumes asym: "\<And>a b. lt a b \<Longrightarrow> \<not> lt b a"
    and negtrans: "\<And>a b c. \<not> lt a b \<Longrightarrow> \<not> lt b c \<Longrightarrow> \<not> lt a c"
  shows "sorted_wrt (\<lambda>a b. \<not> lt a b) ys \<Longrightarrow> sorted_wrt (\<lambda>a b. \<not> lt a b) (sift lt x ys)"
proof (induction ys)
  case Nil
  then show ?case by simp
next
  case (Cons y ys)
  show ?case
  proof (cases "lt x y")
    case True
    with Cons asym show ?thesis by auto
  next
    case False
    have "\<not> lt x z" if "z \<in> set ys" for z
      using negtrans [OF False, of z] Cons.prems that by simp
    with False Cons.prems show ?thesis by simp
  qed
qed

lemma mset_foldl_sift:
  "mset (foldl (\<lambda>front x. sift lt x front) acc xs) = mset acc + mset xs"
  by (induction xs arbitrary: acc) auto

lemma mset_sort_Sort [simp]: "mset (sort_Sort lt xs) = mset xs"
  by (simp add: sort_Sort_def mset_foldl_sift)

lemma sorted_foldl_sift:
  assumes asym: "\<And>a b. lt a b \<Longrightarrow> \<not> lt b a"
    and negtrans: "\<And>a b c. \<not> lt a b \<Longrightarrow> \<not> lt b c \<Longrightarrow> \<not> lt a c"
  shows "sorted_wrt (\<lambda>a b. \<not> lt a b) acc \<Longrightarrow>
         sorted_wrt (\<lambda>a b. \<not> lt a b) (foldl (\<lambda>front x. sift lt x front) acc xs)"
proof (induction xs arbitrary: acc)
  case Nil
  then show ?case by simp
next
  case (Cons x xs)
  from sorted_sift [of lt acc x, OF asym negtrans Cons.prems]
  have "sorted_wrt (\<lambda>a b. \<not> lt a b) (sift lt x acc)" .
  from Cons.IH [OF this] show ?case by simp
qed

lemma sorted_sort_Sort:
  assumes asym: "\<And>a b. lt a b \<Longrightarrow> \<not> lt b a"
    and negtrans: "\<And>a b c. \<not> lt a b \<Longrightarrow> \<not> lt b c \<Longrightarrow> \<not> lt a c"
  shows "sorted_wrt (\<lambda>a b. \<not> lt b a) (sort_Sort lt xs)"
  using sorted_foldl_sift [of lt "[]" xs, OF asym negtrans]
  by (simp add: sort_Sort_def sorted_wrt_rev)

lemma sorted_getSnapshots_order:
  "sorted_wrt (\<lambda>a b. \<not> Less a b) (sort_Sort (Reverse Less) xs)"
proof -
  have "sorted_wrt (\<lambda>a b. \<not> Reverse Less b a) (sort_Sort (Reverse Less) xs)"
    by (rule sorted_sort_Sort) (auto simp: Reverse_def dest: Less_asym Less_negtrans)
  then show ?thesis by (simp add: Reverse_def)
qed

lemma List_loop_take:
  "int (length acc) < r \<Longrightarrow>
   List_loop r acc xs = acc @ map SnapshotMeta.truncate (take (nat r - length acc) xs)"
proof (induction xs arbitrary: acc)
  case Nil
  then show ?case by simp
next
  case (Cons x xs)
  show ?case
  proof (cases "int (length acc) + 1 = r")
    case True
    then have "nat r - length acc = 1" by linarith
    with True show ?thesis by (simp add: Let_def)
  next
    case False
    with Cons.prems have lt: "int (length (acc @ [SnapshotMeta.truncate x])) < r" by simp
    from False Cons.prems
    have "nat r - length acc = Suc (nat r - length (acc @ [SnapshotMeta.truncate x]))"
      by simp
    with Cons.IH [OF lt] False show ?thesis by (simp add: Let_def)
  qed
qed

text \<open>
  Claim C3.  For a store with \<open>retain\<close> at least 1 (every store the constructor
  returns) and any disk: what \<open>List\<close> returns has at most \<open>retain\<close> entries and is
  ordered newest first.  It is the first \<open>retain\<close> entries of an arrangement \<open>all\<close>
  of the finalized snapshots on disk that is ordered newest first, so every snapshot
  it returns may stand before every finalized snapshot it leaves out.
\<close>

theorem List_newest_retain:
  assumes "1 \<le> retain f" and "List f E F fs = Inr ms"
  shows "int (length ms) \<le> retain f \<and> sorted_wrt newest_first ms \<and>
    (\<exists>all. mset all = mset (finalized f E fs) \<and> sorted_wrt newest_first all \<and>
       ms = map SnapshotMeta.truncate (take (nat (retain f)) all) \<and>
       (\<forall>k \<in> set (take (nat (retain f)) all). \<forall>d \<in> set (drop (nat (retain f)) all).
          newest_first k d))"
proof -
  define all where "all = sort_Sort (Reverse Less) (finalized f E fs)"
  from assms(2) have ms: "ms = List_loop (retain f) [] all"
    by (auto simp: List_def getSnapshots_def os_ReadDir_def finalized_def all_def
             split: option.splits sum.splits)
  from assms(1) List_loop_take [of "[]" "retain f" all]
  have ms': "ms = map SnapshotMeta.truncate (take (nat (retain f)) all)"
    by (simp add: ms)
  have sorted: "sorted_wrt newest_first all"
    using sorted_getSnapshots_order [of "finalized f E fs"]
    by (simp add: all_def newest_first_iff [abs_def])
  have "sorted_wrt newest_first (take (nat (retain f)) all @ drop (nat (retain f)) all)"
    using sorted by simp
  then have parts: "sorted_wrt newest_first (take (nat (retain f)) all)"
    "\<forall>k \<in> set (take (nat (retain f)) all). \<forall>d \<in> set (drop (nat (retain f)) all).
       newest_first k d"
    unfolding sorted_wrt_append by blast+
  have len: "int (length ms) \<le> retain f"
    using assms(1) by (simp add: ms')
  have "sorted_wrt newest_first ms"
    using parts(1) by (simp add: ms' sorted_wrt_map)
  with len ms' sorted parts(2) show ?thesis
    by (intro conjI exI [of _ all]) (simp_all add: all_def)
qed

lemma demo_List:
  "List (demo_store 2) demo_env no_faults demo_disk =
     Inr [SnapshotMeta.truncate (demo_meta 2 9 ''2-9-300''),
          SnapshotMeta.truncate (demo_meta 2 7 ''2-7-200'')]"
  by (simp add: demo_defs os_defs name_defs store_defs SnapshotMeta.truncate_def)

text \<open>Of the three finalized snapshots of the example disk, a store retaining two lists two.\<close>

theorem List_newest_retain_witness:
  "List (demo_store 2) demo_env no_faults demo_disk =
     Inr [SnapshotMeta.truncate (demo_meta 2 9 ''2-9-300''),
          SnapshotMeta.truncate (demo_meta 2 7 ''2-7-200'')] \<and>
   sorted_wrt newest_first [SnapshotMeta.truncate (demo_meta 2 9 ''2-9-300''),
          SnapshotMeta.truncate (demo_meta 2 7 ''2-7-200'')] \<and>
   length (finalized (demo_store 2) demo_env demo_disk) = 3"
proof -
  have r: "1 \<le> retain (demo_store 2)" by (simp add: demo_store_def)
  have n: "length (finalized (demo_store 2) demo_env demo_disk) = 3"
    by (simp add: demo_defs os_defs name_defs store_defs)
  from List_newest_retain [OF r demo_List] demo_List n
  show ?thesis by simp
qed

subsection \<open>Writing, closing and opening again\<close>

lemma hash_Write_append: "hash_Write (hash_Write c a) b = hash_Write c (a @ b)"
  by (simp add: hash_Write_def crc64_update_def)

lemma hash_Write_Nil [simp]: "hash_Write c [] = c"
  by (simp add: hash_Write_def crc64_update_def)

lemma state_content_file_append:
  "state_content (file_append d p fs) n =
     (if n = d then map_option (\<lambda>c. c @ p) (state_content fs d) else state_content fs n)"
  by (auto simp: state_content_def file_append_def split: option.splits node.splits)

lemma is_open_file_append [simp]: "is_open (file_append d p fs) h = is_open fs h"
  by (simp add: is_open_def)


lemma multi_Write_ok:
  assumes "fdir (stateFile s) = dir s" "is_open fs (stateFile s)"
    and "state_content fs (dir s) = Some c" "stateHash s = hash_Write 0 c"
    and "multi_Write s p w fs = ((n, None), s', fs')"
  shows "s' = s\<lparr>stateHash := hash_Write 0 (c @ p)\<rparr> \<and> n = length p \<and>
         state_content fs' (dir s) = Some (c @ p) \<and> is_open fs' (stateFile s)"
  using assms
  by (auto simp: multi_Write_def File_Write_def state_content_file_append hash_Write_append
           split: if_splits option.splits prod.splits)

lemma multi_Write_open:
  assumes "multi_Write s p w fs = (r, s', fs')"
  shows "is_open fs' h = is_open fs h"
  using multi_Write_frame [OF assms] by (simp add: is_open_def)

lemma bufio_Flush_tracks:
  assumes "tracks s fs data" and "bufio_Flush s w fs = (e, s', fs')"
  shows "tracks s' fs' data \<and> (e = None \<longrightarrow> buf (buffered s') = [] \<and> werr (buffered s') = None) \<and>
         (e \<noteq> None \<longrightarrow> werr (buffered s') \<noteq> None)"
proof (cases "werr (buffered s) = None \<and> buf (buffered s) \<noteq> []")
  case False
  with assms show ?thesis
    by (auto simp: bufio_Flush_def Let_def tracks_def split: if_splits)
next
  case True
  with assms(1) obtain c where c: "state_content fs (dir s) = Some c"
    "c @ buf (buffered s) = data" "stateHash s = hash_Write 0 c"
    and o: "fdir (stateFile s) = dir s" "is_open fs (stateFile s)"
    by (auto simp: tracks_def)
  obtain n e1 s1 fs1 where mw: "multi_Write s (buf (buffered s)) w fs = ((n, e1), s1, fs1)"
    by (metis prod.exhaust)
  note fr = multi_Write_frame [OF mw] multi_Write_open [OF mw]
  show ?thesis
  proof (cases e1)
    case None
    from multi_Write_ok [OF o c(1,3) mw [unfolded None]] True assms(2) mw None c o
    show ?thesis
      by (auto simp: bufio_Flush_def Let_def tracks_def)
  next
    case (Some err)
    with True assms(2) mw fr o show ?thesis
      by (auto simp: bufio_Flush_def Let_def tracks_def)
  qed
qed

lemma tracks_pending:
  "tracks s fs data \<Longrightarrow>
   tracks (s\<lparr>buffered := (buffered s)\<lparr>buf := buf (buffered s) @ p\<rparr>\<rparr>) fs (data @ p)"
  by (auto simp: tracks_def)

lemma loop_tracks:
  assumes "tracks s fs data" and "bufio_Write_loop s p ws fs nn = (nn', p', s', fs')"
  shows "tracks (s'\<lparr>buffered := (buffered s')\<lparr>buf := buf (buffered s') @ p'\<rparr>\<rparr>) fs' (data @ p)"
  using assms
proof (induction s p ws fs nn arbitrary: data rule: bufio_Write_loop.induct)
  case (1 s p wfaults fs nn)
  note loop = "1.prems"(2) [unfolded bufio_Write_loop.simps [of s p wfaults fs nn]]
  show ?case
  proof (cases "length p > Available (buffered s) \<and> werr (buffered s) = None")
    case False
    with loop "1.prems"(1) show ?thesis
      by (auto simp: tracks_pending)
  next
    case go: True
    show ?thesis
    proof (cases "buf (buffered s) = []")
      case empty: True
      obtain n e s1 fs1 where mw:
        "multi_Write s p (case wfaults of [] \<Rightarrow> None | w # ws \<Rightarrow> w) fs = ((n, e), s1, fs1)"
        by (metis prod.exhaust)
      from "1.prems"(1) go empty obtain c where c: "state_content fs (dir s) = Some c"
        "c = data" "stateHash s = hash_Write 0 c"
        and o: "fdir (stateFile s) = dir s" "is_open fs (stateFile s)"
        by (auto simp: tracks_def)
      show ?thesis
      proof (cases e)
        case (Some err)
        with loop go empty mw multi_Write_frame [OF mw] multi_Write_open [OF mw] o
        show ?thesis by (auto simp: tracks_def)
      next
        case None
        from multi_Write_ok [OF o c(1,3) mw [unfolded None]]
        have s1: "s1 = s\<lparr>stateHash := hash_Write 0 (c @ p)\<rparr>" "n = length p"
          "state_content fs1 (dir s) = Some (c @ p)" "is_open fs1 (stateFile s)" by auto
        then have t1: "tracks s1 fs1 (data @ p)"
          using o empty c by (auto simp: tracks_def)
        from loop go empty mw None
        have rec: "bufio_Write_loop s1 (drop n p) (tl wfaults) fs1 (nn + n) = (nn', p', s', fs')"
          by simp
        from "1.IH"(1) [OF go empty mw [symmetric] _ _ _ t1 rec] None s1(2)
        show ?thesis by simp
      qed
    next
      case nonempty: False
      define n where "n = min (Available (buffered s)) (length p)"
      define s0 where "s0 = s\<lparr>buffered := (buffered s)\<lparr>buf := buf (buffered s) @ take n p\<rparr>\<rparr>"
      obtain e s1 fs1 where fl:
        "bufio_Flush s0 (case wfaults of [] \<Rightarrow> None | w # ws \<Rightarrow> w) fs = (e, s1, fs1)"
        by (metis prod.exhaust)
      from "1.prems"(1) have t0: "tracks s0 fs (data @ take n p)"
        unfolding s0_def by (rule tracks_pending)
      from bufio_Flush_tracks [OF t0 fl]
      have t1: "tracks s1 fs1 (data @ take n p)"
        and ok: "e = None \<longrightarrow> buf (buffered s1) = [] \<and> werr (buffered s1) = None"
        and bad: "e \<noteq> None \<longrightarrow> werr (buffered s1) \<noteq> None" by auto
      show ?thesis
      proof (cases e)
        case (Some err)
        with loop go nonempty fl bad t1 show ?thesis
          by (auto simp: n_def s0_def Let_def tracks_def)
      next
        case None
        from loop go nonempty fl None
        have rec: "bufio_Write_loop s1 (drop n p) (tl wfaults) fs1 (nn + n) = (nn', p', s', fs')"
          by (simp add: n_def s0_def Let_def)
        from "1.IH"(2) [OF go nonempty n_def s0_def fl [symmetric] _ _ t1 rec] None
        show ?thesis by simp
      qed
    qed
  qed
qed

lemma Write_tracks:
  assumes "tracks s fs data" and "Write s b ws fs = (r, s', fs')"
  shows "tracks s' fs' (data @ b)"
proof -
  obtain nn p s1 fs1 where l: "bufio_Write_loop s b ws fs 0 = (nn, p, s1, fs1)"
    by (metis prod.exhaust)
  from loop_tracks [OF assms(1) l]
  have t: "tracks (s1\<lparr>buffered := (buffered s1)\<lparr>buf := buf (buffered s1) @ p\<rparr>\<rparr>) fs1 (data @ b)" .
  show ?thesis
  proof (cases "werr (buffered s1)")
    case None
    with assms(2) l t show ?thesis by (auto simp: Write_def)
  next
    case (Some e)
    with assms(2) l t show ?thesis by (auto simp: Write_def tracks_def)
  qed
qed


lemma state_content_put_entry [simp]:
  "state_content (put_entry d n fs) k =
     (if k = d then (case n of Directory sd \<Rightarrow> state_bin sd | RegularFile c \<Rightarrow> None)
      else state_content fs k)"
  by (auto simp: state_content_def split: node.splits)

lemma state_content_del_entry [simp]:
  "state_content (del_entry d fs) k = (if k = d then None else state_content fs k)"
  by (auto simp: state_content_def)

lemma state_content_Some:
  "state_content fs d = Some c \<longleftrightarrow> (\<exists>sd. lookup fs d = Some (Directory sd) \<and> state_bin sd = Some c)"
  by (auto simp: state_content_def split: option.splits node.splits)

lemma Create_sink:
  assumes "Create f v i t c ci tr enc now F fs = (Inr s, fs1)"
  shows "tracks s fs1 [] \<and> \<not> closed s \<and> dir s = ID (meta s) @ tmpSuffix \<and>
         ID (meta s) = snapshotName t i now \<and> store s = f \<and> v = 1 \<and> Version (meta s) = 1 \<and>
         Index (meta s) = i \<and> Term (meta s) = t"
  using assms
  by (auto simp: Create_def Let_def os_MkdirAll_def os_Create_state_def os_open_fd_def
                 tracks_def is_open_def
           split: if_splits option.splits prod.splits sum.splits node.splits)

lemma loop_frame:
  assumes "bufio_Write_loop s p ws fs nn = (nn', p', s', fs')"
  shows "dir s' = dir s \<and> stateFile s' = stateFile s \<and> closed s' = closed s \<and>
         store s' = store s \<and> meta s' = meta s \<and> sink_noSync s' = sink_noSync s \<and>
         open_fds fs' = open_fds fs \<and>
         (\<forall>n. n \<noteq> fdir (stateFile s) \<longrightarrow> lookup fs' n = lookup fs n)"
  using assms
proof (induction s p ws fs nn rule: bufio_Write_loop.induct)
  case (1 s p wfaults fs nn)
  note loop = "1.prems" [unfolded bufio_Write_loop.simps [of s p wfaults fs nn]]
  show ?case
  proof (cases "length p > Available (buffered s) \<and> werr (buffered s) = None")
    case False
    with loop show ?thesis by auto
  next
    case go: True
    show ?thesis
    proof (cases "buf (buffered s) = []")
      case empty: True
      obtain n e s1 fs1 where mw:
        "multi_Write s p (case wfaults of [] \<Rightarrow> None | w # ws \<Rightarrow> w) fs = ((n, e), s1, fs1)"
        by (metis prod.exhaust)
      note fr = multi_Write_frame [OF mw]
      show ?thesis
      proof (cases e)
        case (Some err)
        with loop go empty mw fr show ?thesis by auto
      next
        case None
        from loop go empty mw None
        have rec: "bufio_Write_loop s1 (drop n p) (tl wfaults) fs1 (nn + n) = (nn', p', s', fs')"
          by simp
        from "1.IH"(1) [OF go empty mw [symmetric] _ _ _ rec] None fr
        show ?thesis by simp
      qed
    next
      case nonempty: False
      define n where "n = min (Available (buffered s)) (length p)"
      define s0 where "s0 = s\<lparr>buffered := (buffered s)\<lparr>buf := buf (buffered s) @ take n p\<rparr>\<rparr>"
      obtain e s1 fs1 where fl:
        "bufio_Flush s0 (case wfaults of [] \<Rightarrow> None | w # ws \<Rightarrow> w) fs = (e, s1, fs1)"
        by (metis prod.exhaust)
      note fr = bufio_Flush_frame [OF fl]
      show ?thesis
      proof (cases e)
        case (Some err)
        with loop go nonempty fl fr show ?thesis
          by (auto simp: n_def s0_def Let_def)
      next
        case None
        from loop go nonempty fl None
        have rec: "bufio_Write_loop s1 (drop n p) (tl wfaults) fs1 (nn + n) = (nn', p', s', fs')"
          by (simp add: n_def s0_def Let_def)
        from "1.IH"(2) [OF go nonempty n_def s0_def fl [symmetric] _ _ rec] None fr
        show ?thesis by (simp add: s0_def)
      qed
    qed
  qed
qed

lemma Write_frame:
  assumes "Write s b ws fs = (r, s', fs')"
  shows "dir s' = dir s \<and> stateFile s' = stateFile s \<and> closed s' = closed s \<and>
         store s' = store s \<and> meta s' = meta s \<and> sink_noSync s' = sink_noSync s \<and>
         open_fds fs' = open_fds fs \<and>
         (\<forall>n. n \<noteq> fdir (stateFile s) \<longrightarrow> lookup fs' n = lookup fs n)"
proof -
  obtain nn p s1 fs1 where l: "bufio_Write_loop s b ws fs 0 = (nn, p, s1, fs1)"
    by (metis prod.exhaust)
  from loop_frame [OF l] assms l show ?thesis
    by (auto simp: Write_def split: if_splits)
qed

lemma Writes_tracks:
  assumes "tracks s fs data" and "Writes s ws fs = (s', fs')"
  shows "tracks s' fs' (data @ concat (map fst ws)) \<and> dir s' = dir s \<and> closed s' = closed s \<and>
         store s' = store s \<and> meta s' = meta s \<and> sink_noSync s' = sink_noSync s"
  using assms
proof (induction ws arbitrary: s fs data)
  case Nil
  then show ?case by simp
next
  case (Cons w ws)
  obtain b wfaults where w: "w = (b, wfaults)" by (cases w)
  obtain r s1 fs1 where wr: "Write s b wfaults fs = (r, s1, fs1)" by (metis prod.exhaust)
  from Cons.prems(2) w wr have rest: "Writes s1 ws fs1 = (s', fs')" by simp
  from Cons.IH [OF Write_tracks [OF Cons.prems(1) wr] rest] Write_frame [OF wr] w
  show ?case by simp
qed

lemma finalize_success:
  assumes "tracks s fs data" and "finalize s F fs = (None, s1, fs1)"
  shows "state_content fs1 (dir s) = Some data \<and>
         meta s1 = (meta s)\<lparr>Size := int (length data), CRC := hash_Sum (hash_Write 0 data)\<rparr> \<and>
         open_fds fs1 = removeAll (fd (stateFile s)) (open_fds fs)"
proof -
  obtain e s0 fs0 where fl: "bufio_Flush s (write_err F) fs = (e, s0, fs0)"
    by (metis prod.exhaust)
  from assms(2) fl have e: "e = None"
    by (auto simp: finalize_def split: option.splits)
  from bufio_Flush_tracks [OF assms(1) fl] e
  have t0: "tracks s0 fs0 data" "buf (buffered s0) = []" "werr (buffered s0) = None" by auto
  then have c: "state_content fs0 (dir s0) = Some data" "stateHash s0 = hash_Write 0 data"
    "is_open fs0 (stateFile s0)" "fdir (stateFile s0) = dir s0"
    by (auto simp: tracks_def)
  note fr = bufio_Flush_frame [OF fl]
  from assms(2) fl e fr c show ?thesis
    by (auto simp: finalize_def File_Close_def File_Stat_def Let_def
             split: option.splits if_splits prod.splits sum.splits)
qed

lemma writeMeta_success:
  assumes "writeMeta s F fs = (None, fs')"
  shows "\<exists>sd. lookup fs (dir s) = Some (Directory sd) \<and>
           fs' = put_entry (dir s) (Directory (sd\<lparr>meta_json := Some (Decodes (meta s))\<rparr>)) fs"
  using assms
  by (auto simp: writeMeta_def Let_def split: option.splits node.splits if_splits)

lemma os_Rename_success:
  assumes "os_Rename old new fault fs = (None, fs')" and "old \<noteq> new"
  shows "\<exists>n. lookup fs old = Some n \<and> fs' = put_entry new n (del_entry old fs) \<and>
             (lookup fs new = None \<or> lookup fs new = Some (Directory empty_dir) \<or>
              (\<exists>c c'. n = RegularFile c \<and> lookup fs new = Some (RegularFile c')))"
  using assms
  by (auto simp: os_Rename_def split: option.splits node.splits if_splits)

lemma TrimSuffix_append [simp]: "TrimSuffix (name @ suffix) suffix = name"
  by (simp add: TrimSuffix_def HasSuffix_def)

lemma append_tmp_neq: "name @ tmpSuffix \<noteq> name"
  by (simp add: tmpSuffix_def)

lemma reap_loop_frame:
  assumes "reap_loop F xs i fs = (e, fs')"
  shows "open_fds fs' = open_fds fs \<and> (\<forall>n. lookup fs' n = lookup fs n \<or> lookup fs' n = None)"
  using assms
proof (induction F xs i fs rule: reap_loop.induct)
  case (1 F snapshots i fs)
  note loop = "1.prems" [unfolded reap_loop.simps [of F snapshots i fs]]
  show ?case
  proof (cases "i < int (length snapshots) \<and> \<not> i < 0 \<and>
                removeAll_err F (ID (snapshots ! nat i)) = None")
    case False
    with loop show ?thesis
      by (auto simp: os_RemoveAll_def split: if_splits option.splits)
  next
    case True
    define fs1 where "fs1 = del_entry (ID (snapshots ! nat i)) fs"
    from True have rm: "os_RemoveAll (ID (snapshots ! nat i))
        (removeAll_err F (ID (snapshots ! nat i))) fs = (None, fs1)"
      by (simp add: os_RemoveAll_def fs1_def)
    with loop True have rec: "reap_loop F snapshots (i + 1) fs1 = (e, fs')" by simp
    from "1.IH" [OF _ _ rm [symmetric] _ rec] True
    have "open_fds fs' = open_fds fs1 \<and> (\<forall>n. lookup fs' n = lookup fs1 n \<or> lookup fs' n = None)"
      by simp
    then have a: "open_fds fs' = open_fds fs"
      and b: "\<And>n. lookup fs' n = lookup fs1 n \<or> lookup fs' n = None"
      by (auto simp: fs1_def)
    have "lookup fs' n = lookup fs n \<or> lookup fs' n = None" for n
      using b [of n] by (cases "n = ID (snapshots ! nat i)") (auto simp: fs1_def)
    with a show ?thesis by blast
  qed
qed

lemma ReapSnapshots_frame:
  assumes "ReapSnapshots f E F fs = (e, fs')"
  shows "open_fds fs' = open_fds fs \<and> (\<forall>n. lookup fs' n = lookup fs n \<or> lookup fs' n = None)"
proof (cases "getSnapshots f E F fs")
  case (Inl err)
  with assms show ?thesis by (simp add: ReapSnapshots_def)
next
  case (Inr snapshots)
  with assms have "reap_loop F snapshots (retain f) fs = (e, fs')"
    by (simp add: ReapSnapshots_def)
  then show ?thesis by (rule reap_loop_frame)
qed

lemma Open_success:
  assumes "readMeta f id' fs = Inr m" and "state_content fs id' = Some data"
    and "CRC m = hash_Sum (hash_Write 0 data)"
    and "open_err F = None" "copy_err F = None" "seek_err F = None"
  shows "Open f id' F fs =
           (Inr (SnapshotMeta.truncate m,
                 \<lparr>bh = [], fh = \<lparr>fd = fresh_fd (open_fds fs), fdir = id', pos = 0\<rparr>\<rparr>),
            fs\<lparr>open_fds := fresh_fd (open_fds fs) # open_fds fs\<rparr>)"
  using assms
  by (auto simp: Open_def os_Open_state_def os_open_fd_def io_Copy_hash_def is_open_def
      File_Seek_def bytes_Equal_def Let_def)

lemma ReadAll_fresh:
  assumes "state_content fs id' = Some data"
  shows "ReadAll \<lparr>bh = [], fh = \<lparr>fd = fresh_fd (open_fds fs), fdir = id', pos = 0\<rparr>\<rparr>
           (fs\<lparr>open_fds := fresh_fd (open_fds fs) # open_fds fs\<rparr>) = data"
  using assms by (subst ReadAll_unread) (auto simp: is_open_def unread_def)

lemma tracks_closed_update [simp]: "tracks (s\<lparr>closed := b\<rparr>) fs data = tracks s fs data"
  by (simp add: tracks_def)


lemma Close_success:
  assumes t: "tracks s fs data" and nc: "\<not> closed s"
    and d: "dir s = ID (meta s) @ tmpSuffix"
    and cl: "Close s E F fs = (None, s', fs')"
  shows "\<exists>fs1 sd.
           (\<forall>k. k \<noteq> dir s \<longrightarrow> lookup fs1 k = lookup fs k) \<and>
           lookup fs1 (dir s) = Some (Directory sd) \<and>
           open_fds fs1 = removeAll (fd (stateFile s)) (open_fds fs) \<and>
           (lookup fs (ID (meta s)) = None \<or> lookup fs (ID (meta s)) = Some (Directory empty_dir)) \<and>
           ReapSnapshots (store s) E F
             (put_entry (ID (meta s))
                (Directory \<lparr>meta_json = Some (Decodes (meta s')), state_bin = Some data\<rparr>)
                (del_entry (dir s) fs1)) = (None, fs') \<and>
           meta s' = (meta s)\<lparr>Size := int (length data), CRC := hash_Sum (hash_Write 0 data)\<rparr> \<and>
           store s' = store s"
proof -
  obtain e s1 fs1 where fin: "finalize (s\<lparr>closed := True\<rparr>) F fs = (e, s1, fs1)"
    by (metis prod.exhaust)
  from cl nc fin have e: "e = None"
    by (auto simp: Close_def split: option.splits prod.splits)
  note fin = fin [unfolded e]
  from t have t': "tracks (s\<lparr>closed := True\<rparr>) fs data" by simp
  from finalize_success [OF t' fin]
  have c1: "state_content fs1 (dir s) = Some data"
    and m1: "meta s1 = (meta s)\<lparr>Size := int (length data), CRC := hash_Sum (hash_Write 0 data)\<rparr>"
    and o1: "open_fds fs1 = removeAll (fd (stateFile s)) (open_fds fs)" by auto
  from finalize_frame [OF fin] t
  have fr: "dir s1 = dir s" "store s1 = store s" "sink_noSync s1 = sink_noSync s"
    "\<forall>n. n \<noteq> dir s \<longrightarrow> lookup fs1 n = lookup fs n"
    by (auto simp: tracks_def)
  obtain e2 fs2 where wm: "writeMeta s1 F fs1 = (e2, fs2)" by (metis prod.exhaust)
  from cl nc fin wm have e2: "e2 = None"
    by (auto simp: Close_def split: option.splits prod.splits)
  from writeMeta_success [OF wm [unfolded e2]] fr(1) obtain sd where
    sd: "lookup fs1 (dir s) = Some (Directory sd)"
    and fs2: "fs2 = put_entry (dir s) (Directory (sd\<lparr>meta_json := Some (Decodes (meta s1))\<rparr>)) fs1"
    by auto
  from c1 sd have sb: "state_bin sd = Some data" by (simp add: state_content_def)
  have new: "TrimSuffix (dir s1) tmpSuffix = ID (meta s)" by (simp add: fr(1) d)
  obtain e3 fs3 where rn: "os_Rename (dir s) (ID (meta s)) (rename_err F) fs2 = (e3, fs3)"
    by (metis prod.exhaust)
  from cl nc fin wm e2 rn new fr(1) have e3: "e3 = None"
    by (auto simp: Close_def Let_def split: option.splits prod.splits)
  have neq: "dir s \<noteq> ID (meta s)" using append_tmp_neq [of "ID (meta s)"] by (simp add: d)
  from os_Rename_success [OF rn [unfolded e3] neq] fs2 neq
  have fs3: "fs3 = put_entry (ID (meta s))
                (Directory (sd\<lparr>meta_json := Some (Decodes (meta s1))\<rparr>)) (del_entry (dir s) fs2)"
    and tgt: "lookup fs2 (ID (meta s)) = None \<or> lookup fs2 (ID (meta s)) = Some (Directory empty_dir)"
    by auto
  have sdeq: "sd\<lparr>meta_json := Some (Decodes (meta s1))\<rparr> =
      \<lparr>meta_json = Some (Decodes (meta s1)), state_bin = Some data\<rparr>"
    using sb by (cases sd) simp
  have del: "del_entry (dir s) fs2 = del_entry (dir s) fs1"
    by (simp add: fs2 del_entry_def put_entry_def delete_update_same)
  from cl nc fin wm e2 rn e3 new fr(1)
  have reap: "ReapSnapshots (store s1) E F fs3 = (None, fs')" and s': "s' = s1"
    by (auto simp: Close_def Let_def split: option.splits prod.splits if_splits)
  from tgt fs2 neq fr(4) have tgt': "lookup fs (ID (meta s)) = None \<or>
      lookup fs (ID (meta s)) = Some (Directory empty_dir)"
    by (auto split: if_splits)
  show ?thesis
    using fr sd o1 tgt' reap s' m1 fs3 sdeq del
    by (intro exI [of _ fs1] exI [of _ sd]) auto
qed

text \<open>
  Claim C1, amended.  A snapshot is created with version 1, any sequence of writes
  goes to the sink (some of which may fail), and \<open>Close\<close> succeeds.  If the directory
  of the snapshot is still on disk after \<open>Close\<close> (its reap did not remove it) and the
  environment fails none of the system calls of \<open>Open\<close>, then \<open>Open\<close> on the ID of
  the sink succeeds, the reader it returns is at offset 0 and yields exactly the bytes
  written, in order, and the metadata carries their length and their CRC64-ECMA
  checksum.
\<close>

theorem snapshot_round_trip:
  assumes cr: "Create f 1 index term cfg ci tr enc now F0 fs0 = (Inr s0, fs1)"
    and wr: "Writes s0 ws fs1 = (s, fs2)"
    and cl: "Close s E F fs2 = (None, s', fs3)"
    and kept: "lookup fs3 (Sink_ID s0) \<noteq> None"
    and io: "open_err F' = None" "copy_err F' = None" "seek_err F' = None"
  shows "\<exists>r fs4. Open f (Sink_ID s0) F' fs3 = (Inr (SnapshotMeta.truncate (meta s'), r), fs4) \<and>
           ReadAll r fs4 = concat (map fst ws) \<and> pos (fh r) = 0 \<and>
           CRC (meta s') = hash_Sum (hash_Write 0 (concat (map fst ws))) \<and>
           Size (meta s') = int (length (concat (map fst ws))) \<and>
           ID (meta s') = Sink_ID s0"
proof -
  let ?data = "concat (map fst ws)"
  let ?id = "ID (meta s0)"
  from Create_sink [OF cr]
  have t0: "tracks s0 fs1 []" and s0: "\<not> closed s0" "dir s0 = ?id @ tmpSuffix" by auto
  from Writes_tracks [OF t0 wr]
  have t: "tracks s fs2 ?data" and s: "dir s = dir s0" "closed s = closed s0" "meta s = meta s0"
    by auto
  from s s0 have nc: "\<not> closed s" and d: "dir s = ID (meta s) @ tmpSuffix" by auto
  from Close_success [OF t nc d cl] s(3) obtain fs_mid where
    reap: "ReapSnapshots (store s) E F fs_mid = (None, fs3)"
    and mid: "lookup fs_mid ?id =
       Some (Directory \<lparr>meta_json = Some (Decodes (meta s')), state_bin = Some ?data\<rparr>)"
    and m': "meta s' = (meta s0)\<lparr>Size := int (length ?data), CRC := hash_Sum (hash_Write 0 ?data)\<rparr>"
    by auto
  from ReapSnapshots_frame [OF reap, THEN conjunct2, THEN spec, of ?id] kept mid
  have l3: "lookup fs3 ?id =
       Some (Directory \<lparr>meta_json = Some (Decodes (meta s')), state_bin = Some ?data\<rparr>)"
    by (auto simp: Sink_ID_def)
  then have rm: "readMeta f ?id fs3 = Inr (meta s')" and sc: "state_content fs3 ?id = Some ?data"
    by (simp_all add: readMeta_def state_content_def)
  from m' have crc: "CRC (meta s') = hash_Sum (hash_Write 0 ?data)" by simp
  from Open_success [OF rm sc crc io] ReadAll_fresh [OF sc] m' crc
  show ?thesis by (simp add: Sink_ID_def)
qed


lemma crowded_Create:
  "Create (demo_store 1) 1 10 3 () 2 () (\<lambda>c t. []) 5000000 no_faults crowded_disk =
     (Inr demo_sink, crowded_disk\<lparr>entries := entries crowded_disk @ entries demo_sink_disk,
                                 open_fds := [1]\<rparr>)"
  by (simp add: demo_defs run_defs os_defs name_defs store_defs)

text \<open>
  Claim C1 as stated fails when the snapshot is older than what the store retains.  On
  a disk that holds the snapshot of term 5, with \<open>retain = 1\<close>: a snapshot of term 3
  is created, written and closed; \<open>Close\<close> succeeds, its reap removes the snapshot
  just installed, and \<open>Open\<close> on its ID finds nothing.
\<close>

theorem snapshot_round_trip_counterexample:
  "Create (demo_store 1) 1 10 3 () 2 () (\<lambda>c t. []) 5000000 no_faults crowded_disk =
     (Inr demo_sink, crowded_disk\<lparr>entries := entries crowded_disk @ entries demo_sink_disk,
                                 open_fds := [1]\<rparr>) \<and>
   fst (write_and_close demo_sink
          (crowded_disk\<lparr>entries := entries crowded_disk @ entries demo_sink_disk,
                        open_fds := [1]\<rparr>)) = None \<and>
   fst (Open (demo_store 1) (Sink_ID demo_sink) no_faults
          (snd (snd (write_and_close demo_sink
             (crowded_disk\<lparr>entries := entries crowded_disk @ entries demo_sink_disk,
                           open_fds := [1]\<rparr>))))) = Inl (Errno ENOENT)"
  by (simp add: demo_defs run_defs os_defs name_defs store_defs)

text \<open>The body abcd, written to the sink of the empty disk.\<close>

theorem snapshot_round_trip_witness:
  "\<exists>r fs4. Open (demo_store 1) ''3-10-5'' no_faults
              (snd (snd (write_and_close demo_sink demo_sink_disk))) =
             (Inr (SnapshotMeta.truncate
                     (meta (fst (snd (write_and_close demo_sink demo_sink_disk)))), r), fs4) \<and>
           ReadAll r fs4 = abcd \<and> pos (fh r) = 0"
proof -
  let ?w = "Writes demo_sink [(abcd, [])] demo_sink_disk"
  let ?c = "write_and_close demo_sink demo_sink_disk"
  have wr: "Writes demo_sink [(abcd, [])] demo_sink_disk = (fst ?w, snd ?w)" by simp
  have ok: "fst ?c = None"
    by (simp add: demo_defs run_defs os_defs name_defs store_defs)
  then have cl: "Close (fst ?w) demo_env no_faults (snd ?w) = (None, fst (snd ?c), snd (snd ?c))"
    by (metis prod.collapse write_and_close_def)
  have kept: "lookup (snd (snd ?c)) (Sink_ID demo_sink) \<noteq> None"
    by (simp add: demo_defs run_defs os_defs name_defs store_defs)
  have io: "open_err no_faults = None" "copy_err no_faults = None" "seek_err no_faults = None"
    by (simp_all add: no_faults_def)
  have id: "Sink_ID demo_sink = ''3-10-5''" by (simp add: Sink_ID_def demo_sink_def)
  have bytes: "concat (map fst [(abcd, [] :: (nat \<times> error) option list)]) = abcd" by simp
  from snapshot_round_trip [OF demo_Create wr cl kept io]
  show ?thesis unfolding id bytes by blast
qed

subsection \<open>Retention\<close>


lemma set_populate:
  "set (populate f E fs L) =
     {m. \<exists>name. (name, True) \<in> set L \<and> \<not> HasSuffix name tmpSuffix \<and>
                 readMeta f name fs = Inr m \<and> supported E m}"
proof (induction L)
  case Nil
  then show ?case by simp
next
  case (Cons x L)
  obtain name isDir where x: "x = (name, isDir)" by (cases x)
  show ?case
    unfolding x using Cons.IH
    by (auto simp: supported_def split: sum.splits)
qed

lemma readMeta_Inr:
  "readMeta f name fs = Inr m \<longleftrightarrow>
     (\<exists>sd. lookup fs name = Some (Directory sd) \<and> meta_json sd = Some (Decodes m))"
  by (auto simp: readMeta_def split: option.splits node.splits meta_file.splits)

lemma listing_mem:
  "distinct (map fst (entries fs)) \<Longrightarrow>
   (name, True) \<in> set (map (\<lambda>(name, n). (name, IsDir n)) (sort_key fst (entries fs))) \<longleftrightarrow>
     (\<exists>sd. lookup fs name = Some (Directory sd))"
proof -
  assume d: "distinct (map fst (entries fs))"
  have "(name, True) \<in> set (map (\<lambda>(name, n). (name, IsDir n)) (sort_key fst (entries fs))) \<longleftrightarrow>
        (\<exists>n. (name, n) \<in> set (entries fs) \<and> IsDir n)"
    by (force simp: image_iff)
  also have "\<dots> \<longleftrightarrow> (\<exists>n. lookup fs name = Some n \<and> IsDir n)"
    using d by (auto simp: lookup_def)
  also have "\<dots> \<longleftrightarrow> (\<exists>sd. lookup fs name = Some (Directory sd))"
    by (metis IsDir.elims(2) IsDir.simps(1))
  finally show ?thesis .
qed

lemma set_finalized:
  assumes "distinct (map fst (entries fs))"
  shows "set (finalized f E fs) =
     {m. \<exists>name sd. lookup fs name = Some (Directory sd) \<and> \<not> HasSuffix name tmpSuffix \<and>
                    meta_json sd = Some (Decodes m) \<and> supported E m}"
  unfolding finalized_def set_populate
  using listing_mem [OF assms] by (auto simp: readMeta_Inr)

lemma distinct_populate:
  assumes "distinct (map fst L)"
    and "\<And>name m. (name, True) \<in> set L \<Longrightarrow> \<not> HasSuffix name tmpSuffix \<Longrightarrow>
            readMeta f name fs = Inr m \<Longrightarrow> ID m = name"
  shows "distinct (map ID (populate f E fs L)) \<and> ID ` set (populate f E fs L) \<subseteq> fst ` set L"
  using assms
proof (induction L)
  case Nil
  then show ?case by simp
next
  case (Cons x L)
  obtain name isDir where x: "x = (name, isDir)" by (cases x)
  from Cons.prems have d: "distinct (map fst L)" and nm: "name \<notin> fst ` set L" by (auto simp: x)
  have IH: "distinct (map ID (populate f E fs L)) \<and> ID ` set (populate f E fs L) \<subseteq> fst ` set L"
    by (rule Cons.IH [OF d]) (auto intro: Cons.prems(2))
  show ?case
  proof (cases "isDir \<and> \<not> HasSuffix name tmpSuffix")
    case False
    with IH show ?thesis unfolding x by auto
  next
    case True
    show ?thesis
    proof (cases "readMeta f name fs")
      case (Inl e)
      with IH True show ?thesis unfolding x by auto
    next
      case (Inr m)
      with Cons.prems(2) [of name m] True have "ID m = name" by (simp add: x)
      with IH nm Inr True show ?thesis unfolding x by auto
    qed
  qed
qed

lemma distinct_IDs_finalized:
  assumes "names_are_IDs fs"
  shows "distinct (map ID (finalized f E fs))"
proof -
  from assms have d: "distinct (map fst (entries fs))" by (simp add: names_are_IDs_def)
  have fstf: "fst \<circ> (\<lambda>(name, n). (name, IsDir n)) = (fst :: string \<times> 'a node \<Rightarrow> string)"
    by (auto simp: fun_eq_iff)
  have "mset (map fst (map (\<lambda>(name, n). (name, IsDir n)) (sort_key fst (entries fs)))) =
        mset (map fst (entries fs))"
    by (simp add: fstf)
  with d have m: "distinct (map fst (map (\<lambda>(name, n). (name, IsDir n))
        (sort_key fst (entries fs))))"
    by (metis mset_eq_imp_distinct_iff)
  have "distinct (map ID (populate f E fs (map (\<lambda>(name, n). (name, IsDir n)) (sort_key fst (entries fs)))))"
  proof (rule distinct_populate [THEN conjunct1])
    show "distinct (map fst (map (\<lambda>(name, n). (name, IsDir n)) (sort_key fst (entries fs))))"
      by (rule m)
  next
    fix name m
    assume "(name, True) \<in> set (map (\<lambda>(name, n). (name, IsDir n)) (sort_key fst (entries fs)))"
      and "\<not> HasSuffix name tmpSuffix" and "readMeta f name fs = Inr m"
    with assms show "ID m = name"
      by (auto simp: names_are_IDs_def readMeta_Inr)
  qed
  then show ?thesis by (simp add: finalized_def)
qed

lemma distinct_put_entry: "distinct (map fst (entries fs)) \<Longrightarrow> distinct (map fst (entries (put_entry n x fs)))"
  by (simp add: put_entry_def distinct_update)

lemma distinct_del_entry: "distinct (map fst (entries fs)) \<Longrightarrow> distinct (map fst (entries (del_entry n fs)))"
  by (simp add: del_entry_def distinct_delete)

lemma reap_loop_success:
  assumes "0 \<le> i" and "reap_loop F xs i fs = (None, fs')"
  shows "(\<forall>n. lookup fs' n = (if n \<in> ID ` set (drop (nat i) xs) then None else lookup fs n)) \<and>
         (distinct (map fst (entries fs)) \<longrightarrow> distinct (map fst (entries fs')))"
  using assms
proof (induction F xs i fs rule: reap_loop.induct)
  case (1 F snapshots i fs)
  note loop = "1.prems"(2) [unfolded reap_loop.simps [of F snapshots i fs]]
  show ?case
  proof (cases "i < int (length snapshots)")
    case False
    with loop "1.prems"(1) show ?thesis by auto
  next
    case True
    with "1.prems"(1) have i: "nat i < length snapshots" by simp
    define k where "k = ID (snapshots ! nat i)"
    define fs1 where "fs1 = del_entry k fs"
    from loop True "1.prems"(1) have nf: "removeAll_err F k = None"
      by (auto simp: os_RemoveAll_def k_def split: option.splits if_splits)
    then have rm: "os_RemoveAll (ID (snapshots ! nat i))
        (removeAll_err F (ID (snapshots ! nat i))) fs = (None, fs1)"
      by (simp add: os_RemoveAll_def fs1_def k_def)
    with loop True "1.prems"(1) have rec: "reap_loop F snapshots (i + 1) fs1 = (None, fs')" by simp
    from "1.prems"(1) have lt: "\<not> i < 0" by simp
    from "1.IH" [OF True lt rm [symmetric] _ _ rec] "1.prems"(1)
    have IH: "\<forall>n. lookup fs' n = (if n \<in> ID ` set (drop (nat (i + 1)) snapshots) then None else lookup fs1 n)"
      "distinct (map fst (entries fs1)) \<longrightarrow> distinct (map fst (entries fs'))"
      by auto
    have dr: "drop (nat i) snapshots = snapshots ! nat i # drop (nat (i + 1)) snapshots"
      using i "1.prems"(1) by (simp add: Cons_nth_drop_Suc nat_add_distrib)
    show ?thesis
      using IH by (auto simp: dr fs1_def k_def distinct_del_entry)
  qed
qed

lemma getSnapshots_Inr:
  "getSnapshots f E F fs = Inr all \<Longrightarrow> all = sort_Sort (Reverse Less) (finalized f E fs)"
  by (auto simp: getSnapshots_def os_ReadDir_def finalized_def split: option.splits)

lemma names_are_IDs_sub:
  assumes "names_are_IDs fs" and "distinct (map fst (entries fs'))"
    and "\<And>n. lookup fs' n = None \<or> lookup fs' n = lookup fs n"
  shows "names_are_IDs fs'"
  unfolding names_are_IDs_def
proof (intro conjI allI impI)
  show "distinct (map fst (entries fs'))" by fact
next
  fix name sd m
  assume a: "lookup fs' name = Some (Directory sd)" "meta_json sd = Some (Decodes m)"
    "\<not> HasSuffix name tmpSuffix"
  with assms(3) [of name] have "lookup fs name = Some (Directory sd)" by auto
  with assms(1) a show "ID m = name" by (auto simp: names_are_IDs_def)
qed

lemma ReapSnapshots_keeps_newest:
  assumes inv: "names_are_IDs fs" and r: "0 \<le> retain f"
    and reap: "ReapSnapshots f E F fs = (None, fs')"
  shows "\<exists>all. getSnapshots f E F fs = Inr all \<and>
           mset all = mset (finalized f E fs) \<and> sorted_wrt newest_first all \<and>
           set (finalized f E fs') = set (take (nat (retain f)) all) \<and>
           length (finalized f E fs') \<le> nat (retain f) \<and>
           (\<forall>m \<in> set (drop (nat (retain f)) all). lookup fs' (ID m) = None) \<and>
           names_are_IDs fs'"
proof -
  from reap obtain all where gs: "getSnapshots f E F fs = Inr all"
    and loop: "reap_loop F all (retain f) fs = (None, fs')"
    by (auto simp: ReapSnapshots_def split: sum.splits)
  define n where "n = nat (retain f)"
  note all = getSnapshots_Inr [OF gs]
  have ms: "mset all = mset (finalized f E fs)" by (simp add: all)
  have sorted: "sorted_wrt newest_first all"
    using sorted_getSnapshots_order [of "finalized f E fs"]
    by (simp add: all newest_first_iff [abs_def])
  from inv have d: "distinct (map fst (entries fs))" by (simp add: names_are_IDs_def)
  from reap_loop_success [OF r loop] d
  have look: "\<And>k. lookup fs' k = (if k \<in> ID ` set (drop n all) then None else lookup fs k)"
    and d': "distinct (map fst (entries fs'))"
    by (auto simp: n_def)
  have inv': "names_are_IDs fs'"
    by (rule names_are_IDs_sub [OF inv d']) (simp add: look)
  have "mset (map ID all) = mset (map ID (finalized f E fs))" using ms by (metis mset_map)
  with distinct_IDs_finalized [OF inv, of f E] have dall: "distinct (map ID all)"
    by (metis mset_eq_imp_distinct_iff)
  then have "distinct (map ID (take n all @ drop n all))" by simp
  then have disj: "ID ` set (take n all) \<inter> ID ` set (drop n all) = {}"
    unfolding map_append distinct_append by simp
  have setall: "set all = set (finalized f E fs)" using ms by (metis set_mset_mset)
  have "set (finalized f E fs') = {m \<in> set (finalized f E fs). ID m \<notin> ID ` set (drop n all)}"
  proof -
    have "set (finalized f E fs') = {m. \<exists>name sd. lookup fs name = Some (Directory sd) \<and>
        name \<notin> ID ` set (drop n all) \<and> \<not> HasSuffix name tmpSuffix \<and>
        meta_json sd = Some (Decodes m) \<and> supported E m}"
      unfolding set_finalized [OF d'] by (auto simp: look split: if_splits)
    also have "\<dots> = {m. \<exists>name sd. lookup fs name = Some (Directory sd) \<and>
        ID m \<notin> ID ` set (drop n all) \<and> \<not> HasSuffix name tmpSuffix \<and>
        meta_json sd = Some (Decodes m) \<and> supported E m}"
      using inv unfolding names_are_IDs_def by (intro Collect_cong) (metis (no_types, lifting))
    finally show ?thesis unfolding set_finalized [OF d] by auto
  qed
  also have "\<dots> = set (take n all)"
  proof -
    have "set all = set (take n all) \<union> set (drop n all)"
      by (metis append_take_drop_id set_append)
    with disj setall show ?thesis by auto
  qed
  finally have surv: "set (finalized f E fs') = set (take n all)" .
  have "distinct (finalized f E fs')"
    using distinct_IDs_finalized [OF inv', of f E] by (rule distinct_map [THEN iffD1, THEN conjunct1])
  then have "length (finalized f E fs') = card (set (finalized f E fs'))"
    by (simp add: distinct_card)
  also have "\<dots> \<le> length (take n all)" unfolding surv by (rule card_length)
  also have "\<dots> \<le> n" by simp
  finally have len: "length (finalized f E fs') \<le> n" .
  have gone: "\<forall>m \<in> set (drop n all). lookup fs' (ID m) = None" by (simp add: look)
  from gs ms sorted surv len gone inv' show ?thesis
    unfolding n_def by blast
qed

lemma distinct_file_append:
  "distinct (map fst (entries fs)) \<Longrightarrow> distinct (map fst (entries (file_append d p fs)))"
  by (auto simp: file_append_def distinct_put_entry split: option.splits node.splits)

lemma multi_Write_distinct:
  assumes "multi_Write s p w fs = (r, s', fs')" and "distinct (map fst (entries fs))"
  shows "distinct (map fst (entries fs'))"
  using assms
  by (auto simp: multi_Write_def File_Write_def distinct_file_append
           split: if_splits option.splits prod.splits)

lemma bufio_Flush_distinct:
  assumes "bufio_Flush s w fs = (e, s', fs')" and "distinct (map fst (entries fs))"
  shows "distinct (map fst (entries fs'))"
  using assms
  by (auto simp: bufio_Flush_def Let_def dest: multi_Write_distinct
           split: if_splits option.splits prod.splits)

lemma finalize_distinct:
  assumes "finalize s F fs = (e, s', fs')" and "distinct (map fst (entries fs))"
  shows "distinct (map fst (entries fs'))"
  using assms
  by (auto simp: finalize_def File_Close_def Let_def dest: bufio_Flush_distinct
           split: if_splits option.splits prod.splits sum.splits)

lemma finalize_meta:
  assumes "finalize s F fs = (e, s', fs')"
  shows "ID (meta s') = ID (meta s) \<and> Version (meta s') = Version (meta s) \<and>
         Term (meta s') = Term (meta s) \<and> Index (meta s') = Index (meta s)"
  using assms
  by (auto simp: finalize_def File_Close_def Let_def dest!: bufio_Flush_frame
           split: if_splits option.splits prod.splits sum.splits)

lemma Close_installs:
  assumes nc: "\<not> closed s" and o: "fdir (stateFile s) = dir s"
    and d: "dir s = ID (meta s) @ tmpSuffix"
    and cl: "Close s E F fs = (None, s', fs')"
  shows "\<exists>fs1 sd.
           (\<forall>k. k \<noteq> dir s \<longrightarrow> lookup fs1 k = lookup fs k) \<and>
           lookup fs1 (dir s) = Some (Directory sd) \<and>
           (distinct (map fst (entries fs)) \<longrightarrow> distinct (map fst (entries fs1))) \<and>
           (lookup fs (ID (meta s)) = None \<or> lookup fs (ID (meta s)) = Some (Directory empty_dir)) \<and>
           ReapSnapshots (store s) E F
             (put_entry (ID (meta s))
                (Directory (sd\<lparr>meta_json := Some (Decodes (meta s'))\<rparr>))
                (del_entry (dir s) fs1)) = (None, fs') \<and>
           ID (meta s') = ID (meta s) \<and> Version (meta s') = Version (meta s) \<and>
           Term (meta s') = Term (meta s) \<and> Index (meta s') = Index (meta s)"
proof -
  obtain e s1 fs1 where fin: "finalize (s\<lparr>closed := True\<rparr>) F fs = (e, s1, fs1)"
    by (metis prod.exhaust)
  from cl nc fin have e: "e = None"
    by (auto simp: Close_def split: option.splits prod.splits)
  note fin = fin [unfolded e]
  from finalize_frame [OF fin] o
  have fr: "dir s1 = dir s" "store s1 = store s" "sink_noSync s1 = sink_noSync s"
    "\<forall>n. n \<noteq> dir s \<longrightarrow> lookup fs1 n = lookup fs n"
    by auto
  from finalize_meta [OF fin]
  have m1: "ID (meta s1) = ID (meta s)" "Version (meta s1) = Version (meta s)"
    "Term (meta s1) = Term (meta s)" "Index (meta s1) = Index (meta s)" by auto
  obtain e2 fs2 where wm: "writeMeta s1 F fs1 = (e2, fs2)" by (metis prod.exhaust)
  from cl nc fin wm have e2: "e2 = None"
    by (auto simp: Close_def split: option.splits prod.splits)
  from writeMeta_success [OF wm [unfolded e2]] fr(1) obtain sd where
    sd: "lookup fs1 (dir s) = Some (Directory sd)"
    and fs2: "fs2 = put_entry (dir s) (Directory (sd\<lparr>meta_json := Some (Decodes (meta s1))\<rparr>)) fs1"
    by auto
  have new: "TrimSuffix (dir s1) tmpSuffix = ID (meta s)" by (simp add: fr(1) d)
  obtain e3 fs3 where rn: "os_Rename (dir s) (ID (meta s)) (rename_err F) fs2 = (e3, fs3)"
    by (metis prod.exhaust)
  from cl nc fin wm e2 rn new fr(1) have e3: "e3 = None"
    by (auto simp: Close_def Let_def split: option.splits prod.splits)
  have neq: "dir s \<noteq> ID (meta s)" using append_tmp_neq [of "ID (meta s)"] by (simp add: d)
  from os_Rename_success [OF rn [unfolded e3] neq] fs2 neq
  have fs3: "fs3 = put_entry (ID (meta s))
                (Directory (sd\<lparr>meta_json := Some (Decodes (meta s1))\<rparr>)) (del_entry (dir s) fs2)"
    and tgt: "lookup fs2 (ID (meta s)) = None \<or> lookup fs2 (ID (meta s)) = Some (Directory empty_dir)"
    by auto
  have del: "del_entry (dir s) fs2 = del_entry (dir s) fs1"
    by (simp add: fs2 del_entry_def put_entry_def delete_update_same)
  from cl nc fin wm e2 rn e3 new fr(1)
  have reap: "ReapSnapshots (store s1) E F fs3 = (None, fs')" and s': "s' = s1"
    by (auto simp: Close_def Let_def split: option.splits prod.splits if_splits)
  from tgt fs2 neq fr(4) have tgt': "lookup fs (ID (meta s)) = None \<or>
      lookup fs (ID (meta s)) = Some (Directory empty_dir)"
    by (auto split: if_splits)
  show ?thesis
    using fr sd tgt' reap s' m1 fs3 del finalize_distinct [OF fin]
    by (intro exI [of _ fs1] exI [of _ sd]) auto
qed

lemma supported_cong:
  "Version a = Version b \<Longrightarrow> supported E a = supported E b"
  by (simp add: supported_def)

text \<open>
  Claim C4.  On a disk that the store keeps by itself, take a sink as \<open>Create\<close>
  returns it and \<open>Write\<close> leaves it (not closed, its state file in its directory, the
  directory named by its ID with the \<open>.tmp\<close> suffix, a supported version), of a store
  with \<open>retain\<close> at least 1, and let \<open>Close\<close> succeed on it.  Arrange the snapshots
  that were finalized before, together with the new one, newest first, as \<open>all\<close> (no
  two of them share an ID).  Afterwards the finalized snapshots on disk are exactly the
  first \<open>retain\<close> of \<open>all\<close>, there are at most \<open>retain\<close> of them, the directory of
  every later one is gone, and the disk is still one the store keeps by itself.
  \<open>ReapSnapshots\<close> alone, when it succeeds on such a disk, leaves exactly the first
  \<open>retain\<close> of what \<open>getSnapshots\<close> returned and removes the directory of every other.
\<close>

theorem Close_retention:
  assumes inv: "names_are_IDs fs"
    and sink: "\<not> closed s" "fdir (stateFile s) = dir s" "dir s = ID (meta s) @ tmpSuffix"
      "\<not> HasSuffix (ID (meta s)) tmpSuffix" "supported E (meta s)"
    and r: "1 \<le> retain (store s)"
    and cl: "Close s E F fs = (None, s', fs')"
  shows "(\<exists>all. set all = insert (meta s') (set (finalized (store s) E fs)) \<and>
            distinct (map ID all) \<and> sorted_wrt newest_first all \<and>
            set (finalized (store s) E fs') = set (take (nat (retain (store s))) all) \<and>
            length (finalized (store s) E fs') \<le> nat (retain (store s)) \<and>
            (\<forall>m \<in> set (drop (nat (retain (store s))) all). lookup fs' (ID m) = None)) \<and>
         names_are_IDs fs' \<and>
         (\<forall>fs0 fs1. names_are_IDs fs0 \<longrightarrow> ReapSnapshots (store s) E F fs0 = (None, fs1) \<longrightarrow>
            (\<exists>all. getSnapshots (store s) E F fs0 = Inr all \<and>
               set (finalized (store s) E fs1) = set (take (nat (retain (store s))) all) \<and>
               (\<forall>m \<in> set (drop (nat (retain (store s))) all). lookup fs1 (ID m) = None)))"
proof -
  let ?f = "store s" and ?id = "ID (meta s)"
  from Close_installs [OF sink(1,2,3) cl] obtain fs1 sd where
    fr: "\<forall>k. k \<noteq> dir s \<longrightarrow> lookup fs1 k = lookup fs k"
    and sd: "lookup fs1 (dir s) = Some (Directory sd)"
    and d1: "distinct (map fst (entries fs)) \<longrightarrow> distinct (map fst (entries fs1))"
    and tgt: "lookup fs ?id = None \<or> lookup fs ?id = Some (Directory empty_dir)"
    and reap: "ReapSnapshots ?f E F
             (put_entry ?id (Directory (sd\<lparr>meta_json := Some (Decodes (meta s'))\<rparr>))
                (del_entry (dir s) fs1)) = (None, fs')"
    and m': "ID (meta s') = ?id" "Version (meta s') = Version (meta s)"
    by auto
  define mid where "mid = put_entry ?id (Directory (sd\<lparr>meta_json := Some (Decodes (meta s'))\<rparr>))
                (del_entry (dir s) fs1)"
  have neq: "dir s \<noteq> ?id" using append_tmp_neq [of ?id] by (simp add: sink(3))
  have tmp: "HasSuffix (dir s) tmpSuffix" by (simp add: sink(3) HasSuffix_def)
  have look: "lookup mid k =
      (if k = ?id then Some (Directory (sd\<lparr>meta_json := Some (Decodes (meta s'))\<rparr>))
       else if k = dir s then None else lookup fs k)" for k
    using fr by (simp add: mid_def)
  from inv have d: "distinct (map fst (entries fs))" by (simp add: names_are_IDs_def)
  with d1 have dm: "distinct (map fst (entries mid))"
    by (simp add: mid_def distinct_put_entry distinct_del_entry)
  have invm: "names_are_IDs mid"
    unfolding names_are_IDs_def
  proof (intro conjI allI impI)
    show "distinct (map fst (entries mid))" by fact
  next
    fix name sd0 m
    assume a: "lookup mid name = Some (Directory sd0)" "meta_json sd0 = Some (Decodes m)"
      "\<not> HasSuffix name tmpSuffix"
    show "ID m = name"
    proof (cases "name = ?id")
      case True
      with a look [of name] m' show ?thesis by auto
    next
      case False
      with a look [of name] have "lookup fs name = Some (Directory sd0)" by (auto split: if_splits)
      with inv a show ?thesis by (auto simp: names_are_IDs_def)
    qed
  qed
  have sup: "supported E (meta s')" using sink(5) m'(2) supported_cong by blast
  have cand: "set (finalized ?f E mid) = insert (meta s') (set (finalized ?f E fs))"
  proof -
    have "m \<in> set (finalized ?f E mid) \<longleftrightarrow> m = meta s' \<or> m \<in> set (finalized ?f E fs)" for m
    proof
      assume "m \<in> set (finalized ?f E mid)"
      then obtain name sd0 where a: "lookup mid name = Some (Directory sd0)"
        "\<not> HasSuffix name tmpSuffix" "meta_json sd0 = Some (Decodes m)" "supported E m"
        unfolding set_finalized [OF dm] by auto
      show "m = meta s' \<or> m \<in> set (finalized ?f E fs)"
      proof (cases "name = ?id")
        case True
        with a look [of name] show ?thesis by auto
      next
        case False
        with a look [of name] have "lookup fs name = Some (Directory sd0)"
          by (auto split: if_splits)
        with a show ?thesis unfolding set_finalized [OF d] by auto
      qed
    next
      assume "m = meta s' \<or> m \<in> set (finalized ?f E fs)"
      then show "m \<in> set (finalized ?f E mid)"
      proof
        assume "m = meta s'"
        with look [of ?id] sink(4) sup show ?thesis
          unfolding set_finalized [OF dm]
          by (auto intro!: exI [of _ ?id]
                exI [of _ "sd\<lparr>meta_json := Some (Decodes (meta s'))\<rparr>"])
      next
        assume "m \<in> set (finalized ?f E fs)"
        then obtain name sd0 where a: "lookup fs name = Some (Directory sd0)"
          "\<not> HasSuffix name tmpSuffix" "meta_json sd0 = Some (Decodes m)" "supported E m"
          unfolding set_finalized [OF d] by auto
        from a tgt have "name \<noteq> ?id" by (auto simp: empty_dir_def)
        moreover from a tmp have "name \<noteq> dir s" by auto
        ultimately have "lookup mid name = Some (Directory sd0)" using a look [of name] by simp
        with a show ?thesis unfolding set_finalized [OF dm] by auto
      qed
    qed
    then show ?thesis by auto
  qed
  from r have r0: "0 \<le> retain ?f" by simp
  from ReapSnapshots_keeps_newest [OF invm r0 reap [folded mid_def]]
  obtain all where all: "mset all = mset (finalized ?f E mid)" "sorted_wrt newest_first all"
    "set (finalized ?f E fs') = set (take (nat (retain ?f)) all)"
    "length (finalized ?f E fs') \<le> nat (retain ?f)"
    "\<forall>m \<in> set (drop (nat (retain ?f)) all). lookup fs' (ID m) = None"
    "names_are_IDs fs'"
    by auto
  from all(1) have "set all = set (finalized ?f E mid)" by (metis set_mset_mset)
  with cand have c: "set all = insert (meta s') (set (finalized ?f E fs))" by simp
  from all(1) have "mset (map ID all) = mset (map ID (finalized ?f E mid))" by (metis mset_map)
  with distinct_IDs_finalized [OF invm, of ?f E] have dall: "distinct (map ID all)"
    by (metis mset_eq_imp_distinct_iff)
  have reaps: "\<exists>all. getSnapshots ?f E F fs0 = Inr all \<and>
               set (finalized ?f E fs1) = set (take (nat (retain ?f)) all) \<and>
               (\<forall>m \<in> set (drop (nat (retain ?f)) all). lookup fs1 (ID m) = None)"
    if "names_are_IDs fs0" "ReapSnapshots ?f E F fs0 = (None, fs1)" for fs0 fs1
    using ReapSnapshots_keeps_newest [OF that(1) r0 that(2)] by blast
  from c dall all have "\<exists>all. set all = insert (meta s') (set (finalized ?f E fs)) \<and>
            distinct (map ID all) \<and> sorted_wrt newest_first all \<and>
            set (finalized ?f E fs') = set (take (nat (retain ?f)) all) \<and>
            length (finalized ?f E fs') \<le> nat (retain ?f) \<and>
            (\<forall>m \<in> set (drop (nat (retain ?f)) all). lookup fs' (ID m) = None)"
    by blast
  with all(6) reaps show ?thesis by blast
qed

lemma digits_last: "digits n \<noteq> [] \<and> last (digits n) = digit_char (n mod 10)"
  by (subst (1 2) digits.simps) auto

lemma digit_char_not_p: "digit_char (n mod 10) \<noteq> CHR ''p''"
proof -
  have "n mod 10 < 10" by simp
  then have "n mod 10 \<in> {0, 1, 2, 3, 4, 5, 6, 7, 8, 9}" by simp presburger
  then show ?thesis by (auto simp: digit_char_def)
qed

lemma fmt_int_last: "fmt_int i \<noteq> [] \<and> last (fmt_int i) \<noteq> CHR ''p''"
  using digits_last digit_char_not_p by (auto simp: fmt_int_def)

lemma snapshotName_not_tmp: "\<not> HasSuffix (snapshotName t i now) tmpSuffix"
proof
  assume h: "HasSuffix (snapshotName t i now) tmpSuffix"
  define msec where "msec = go_div now 1000000"
  from h have "last (snapshotName t i now) = CHR ''p''"
    by (auto simp: HasSuffix_def tmpSuffix_def)
       (metis last_drop last.simps list.distinct(1) drop_eq_Nil not_le)
  moreover have "last (snapshotName t i now) = last (fmt_int msec)"
    using fmt_int_last [of msec] by (simp add: snapshotName_def msec_def Let_def)
  ultimately show False using fmt_int_last [of msec] by simp
qed

lemma Create_ready:
  assumes "Create f v i t c ci tr enc now F fs = (Inr s, fs1)"
  shows "\<not> closed s \<and> fdir (stateFile s) = dir s \<and> dir s = ID (meta s) @ tmpSuffix \<and>
         \<not> HasSuffix (ID (meta s)) tmpSuffix \<and> Version (meta s) = 1 \<and> store s = f"
  using Create_sink [OF assms] snapshotName_not_tmp [of t i now]
  by (auto simp: tracks_def)


lemma retaining_two_Create:
  "Create (demo_store 2) 1 10 3 () 2 () (\<lambda>c t. []) 5000000 no_faults demo_disk =
     (Inr retaining_two_sink, demo_disk_with_sink)"
  by (simp add: demo_defs os_defs name_defs store_defs)

lemma demo_names: "names_are_IDs demo_disk_with_sink"
  by (auto simp: names_are_IDs_def demo_defs lookup_def name_defs split: if_splits)

text \<open>
  The example disk holds three finalized snapshots; the store retains two.  Closing the
  snapshot of term 3 leaves that one and the newest of the three.
\<close>

theorem Close_retention_witness:
  "fst (Close retaining_two_sink demo_env no_faults demo_disk_with_sink) = None \<and>
   map ID (finalized (demo_store 2) demo_env demo_disk_with_sink) =
     [''1-5-100'', ''2-7-200'', ''2-9-300''] \<and>
   map ID (finalized (demo_store 2) demo_env
     (snd (snd (Close retaining_two_sink demo_env no_faults demo_disk_with_sink)))) =
     [''2-9-300'', ''3-10-5''] \<and>
   length (finalized (demo_store 2) demo_env
     (snd (snd (Close retaining_two_sink demo_env no_faults demo_disk_with_sink)))) \<le> 2 \<and>
   names_are_IDs (snd (snd (Close retaining_two_sink demo_env no_faults demo_disk_with_sink)))"
proof -
  let ?c = "Close retaining_two_sink demo_env no_faults demo_disk_with_sink"
  have ok: "fst ?c = None"
    by (simp add: demo_defs os_defs name_defs
        store_defs)
  then have cl: "?c = (None, fst (snd ?c), snd (snd ?c))" by (metis prod.collapse)
  have before: "map ID (finalized (demo_store 2) demo_env demo_disk_with_sink) =
     [''1-5-100'', ''2-7-200'', ''2-9-300'']"
    by (simp add: demo_defs demo_disk_with_sink_def os_defs name_defs store_defs)
  have after: "map ID (finalized (demo_store 2) demo_env (snd (snd ?c))) = [''2-9-300'', ''3-10-5'']"
    by (simp add: demo_defs os_defs name_defs
        store_defs)
  have sink: "\<not> closed retaining_two_sink"
    "fdir (stateFile retaining_two_sink) = dir retaining_two_sink"
    "dir retaining_two_sink = ID (meta retaining_two_sink) @ tmpSuffix"
    "\<not> HasSuffix (ID (meta retaining_two_sink)) tmpSuffix"
    "supported demo_env (meta retaining_two_sink)"
    "1 \<le> retain (store retaining_two_sink)"
    by (simp_all add: demo_defs name_defs supported_def)
  have st: "store retaining_two_sink = demo_store 2" by (simp add: demo_defs)
  from Close_retention [OF demo_names sink cl] ok before after
  show ?thesis by (auto simp: st demo_store_def)
qed

section \<open>The AppendEntries pipeline of the network transport\<close>

text \<open>
  Of the network transport the sources hold the TCP stream layer and the tests; the
  pipeline itself (\<open>net_transport.go\<close>) is described by the specification and exercised by
  the tests.  The definitions of this section follow that description.
\<close>

text \<open>
  Modelled from the spec: \<open>net_transport.go\<close>, which declares the sentinel error
  \<open>ErrPipelineReplicationNotSupported\<close>, is not among the sources; the test compares the
  error returned at \<open>MaxRPCsInFlight = 1\<close> with it.  Its text is immaterial here.
\<close>

definition ErrPipelineReplicationNotSupported :: error where
  "ErrPipelineReplicationNotSupported = Errorf ''pipeline replication not supported''"

text \<open>
  Modelled from the spec: the pipeline type of \<open>net_transport.go\<close> is not among the
  sources.  Section 4.6 of the specification describes a dedicated connection, an in-flight
  channel of futures with a fixed capacity, a sender that lives in the caller and a receiver
  task that emits completed futures on the user-facing channel \<open>Consumer\<close>.  The state
  below holds exactly that: the capacity of the in-flight channel and its content
  (\<open>inprogress\<close>), the two directions of the connection (\<open>conn_out\<close> holds the
  requests written and not yet answered by the peer, \<open>conn_in\<close> the answers not yet read),
  the future the receiver has taken off the channel and is completing (\<open>held\<close>), the
  future a blocked sender is waiting to push (\<open>blocked_push\<close>), and what was emitted on
  \<open>Consumer\<close>.  \<open>queued\<close> records every request in the order it was written.  A request
  carries a tag, its position among the sends, so that equal requests stay distinct; an
  emitted future is recorded with the request the answer read for it was given to.
\<close>

record ('req, 'resp) netPipeline =
  inflight_cap :: nat
  next_tag :: nat
  queued :: "(nat \<times> 'req) list"
  conn_out :: "(nat \<times> 'req) list"
  conn_in :: "((nat \<times> 'req) \<times> 'resp) list"
  held :: "(nat \<times> 'req) option"
  inprogress :: "(nat \<times> 'req) list"
  blocked_push :: "(nat \<times> 'req) option"
  Consumer :: "((nat \<times> 'req) \<times> (nat \<times> 'req) \<times> 'resp) list"

text \<open>
  Modelled from the spec: the constructor of the pipeline is not among the sources.  A new
  pipeline has an empty channel of the given capacity and an idle connection.
\<close>

definition newNetPipeline :: "nat \<Rightarrow> ('req, 'resp) netPipeline" where
  "newNetPipeline cap =
     \<lparr>inflight_cap = cap, next_tag = 0, queued = [], conn_out = [], conn_in = [], held = None,
      inprogress = [], blocked_push = None, Consumer = []\<rparr>"

text \<open>
  Modelled from the spec: the reading of the configuration in \<open>net_transport.go\<close> is not
  among the sources.  ``MaxRPCsInFlight (0 defaults to 2, 1 disables pipelining)''; the test
  sets \<open>expectedMax = 2\<close> when it configured 0.
\<close>

definition effective_max :: "nat \<Rightarrow> nat" where
  "effective_max maxRPCsInFlight = (if maxRPCsInFlight = 0 then 2 else maxRPCsInFlight)"

text \<open>
  Modelled from the spec: \<open>AppendEntriesPipeline\<close> of \<open>net_transport.go\<close> is not among the
  sources.  With a limit below 2 ``pipelining is disabled and the call returns a sentinel
  error''; otherwise a pipeline is opened.  The capacity of its in-flight channel is a
  parameter, because the specification and the test of the repository disagree on it (see the
  two capacities below).  Dialling the connection is left out: a pipeline that could not
  be opened sends nothing.
\<close>

definition AppendEntriesPipeline ::
  "(nat \<Rightarrow> nat) \<Rightarrow> nat \<Rightarrow> error + ('req, 'resp) netPipeline" where
  "AppendEntriesPipeline capacity maxRPCsInFlight =
     (if effective_max maxRPCsInFlight < 2 then Inl ErrPipelineReplicationNotSupported
      else Inr (newNetPipeline (capacity maxRPCsInFlight)))"

text \<open>
  Modelled from the spec: the capacity in the words of the specification, ``an in-flight
  channel of capacity \<open>max(MaxRPCsInFlight, 2)\<close>''.
\<close>

definition stated_capacity :: "nat \<Rightarrow> nat" where
  "stated_capacity maxRPCsInFlight = max maxRPCsInFlight 2"

text \<open>
  Modelled from the spec: the capacity the test \<open>AppendEntriesPipeline_MaxRPCsInFlight\<close> of
  the repository asserts.  It sends \<open>expectedMax - 1\<close> requests without blocking, expects
  the next one to block ``because it sends before pushing to the chan'', and calls the
  channel ``unbuffered (inflight is 2 or 1)''; with the receiver holding one future and the
  sender one, a limit of 2 leaves the channel no buffer.
\<close>

definition tested_capacity :: "nat \<Rightarrow> nat" where
  "tested_capacity maxRPCsInFlight = effective_max maxRPCsInFlight - 2"

text \<open>
  Modelled from the spec: the channel operations of the two tasks of \<open>net_transport.go\<close>,
  which is not among the sources.  \<open>push\<close> is the sender's push of a future ``onto the
  channel for the receiver to complete'': an idle receiver takes it at once, a channel
  with room buffers it, and otherwise ``the sender blocks when the channel is full''.
  \<open>take_next\<close> is the receiver taking its next future once it has emitted one: the head
  of the channel, which makes room for a blocked sender's future, or that future itself
  when the channel has no buffer.
\<close>

definition push :: "(nat \<times> 'req) \<Rightarrow> ('req, 'resp) netPipeline \<Rightarrow> ('req, 'resp) netPipeline" where
  "push f p =
     (if held p = None \<and> inprogress p = [] then p\<lparr>held := Some f\<rparr>
      else if length (inprogress p) < inflight_cap p then p\<lparr>inprogress := inprogress p @ [f]\<rparr>
      else p\<lparr>blocked_push := Some f\<rparr>)"

definition take_next :: "('req, 'resp) netPipeline \<Rightarrow> ('req, 'resp) netPipeline" where
  "take_next p =
     (case inprogress p of
        f # rest \<Rightarrow>
          (case blocked_push p of
             Some g \<Rightarrow> p\<lparr>held := Some f, inprogress := rest @ [g], blocked_push := None\<rparr>
           | None \<Rightarrow> p\<lparr>held := Some f, inprogress := rest\<rparr>)
      | [] \<Rightarrow>
          (case blocked_push p of
             Some g \<Rightarrow> p\<lparr>held := Some g, blocked_push := None\<rparr>
           | None \<Rightarrow> p\<lparr>held := None\<rparr>))"

text \<open>
  Modelled from the spec: the tasks of the pipeline and the peer, none of which is among
  the sources, as the events of an interleaving.  \<open>Send r\<close> is a call of
  \<open>AppendEntries\<close> on the pipeline: it ``performs the socket write first, then pushes a
  future onto the channel''; a blocked sender sends nothing more.  \<open>Serve resp\<close> is the
  peer answering the oldest request on the connection, which its server loop reads in the
  order they were written.  \<open>Deliver\<close> is the receiver: it ``reads framed responses in
  the same order they were queued, completes the next in-flight future with the decoded
  response and emits the future on the user-facing response channel'', where the caller
  reads it.
\<close>

datatype ('req, 'resp) event = Send 'req | Serve 'resp | Deliver

fun step :: "('req, 'resp) event \<Rightarrow> ('req, 'resp) netPipeline \<Rightarrow> ('req, 'resp) netPipeline" where
  "step (Send r) p =
     (if blocked_push p \<noteq> None then p
      else push (next_tag p, r)
             (p\<lparr>conn_out := conn_out p @ [(next_tag p, r)],
                queued := queued p @ [(next_tag p, r)],
                next_tag := Suc (next_tag p)\<rparr>))"
| "step (Serve resp) p =
     (case conn_out p of
        [] \<Rightarrow> p
      | r # rest \<Rightarrow> p\<lparr>conn_out := rest, conn_in := conn_in p @ [(r, resp)]\<rparr>)"
| "step Deliver p =
     (case (held p, conn_in p) of
        (Some f, (a, resp) # rest) \<Rightarrow>
          take_next (p\<lparr>conn_in := rest, Consumer := Consumer p @ [(f, a, resp)]\<rparr>)
      | _ \<Rightarrow> p)"

definition run :: "('req, 'resp) event list \<Rightarrow> ('req, 'resp) netPipeline \<Rightarrow> ('req, 'resp) netPipeline" where
  "run evs p = fold step evs p"

text \<open>The futures not yet emitted, oldest first, and the invariant of every run.\<close>

definition pending :: "('req, 'resp) netPipeline \<Rightarrow> (nat \<times> 'req) list" where
  "pending p = (case held p of Some f \<Rightarrow> [f] | None \<Rightarrow> []) @ inprogress p @
               (case blocked_push p of Some f \<Rightarrow> [f] | None \<Rightarrow> [])"

definition pipeline_inv :: "('req, 'resp) netPipeline \<Rightarrow> bool" where
  "pipeline_inv p \<longleftrightarrow>
     pending p = map fst (conn_in p) @ conn_out p \<and>
     map fst (Consumer p) @ pending p = queued p \<and>
     (held p = None \<longrightarrow> inprogress p = [] \<and> blocked_push p = None) \<and>
     list_all (\<lambda>(f, a, resp). f = a) (Consumer p) \<and>
     map fst (queued p) = [0..<next_tag p]"


section \<open>Properties of the pipeline\<close>

subsection \<open>The invariant\<close>

lemma inv_new: "pipeline_inv (newNetPipeline cap)"
  by (simp add: pipeline_inv_def newNetPipeline_def pending_def)

lemma inv_step: "pipeline_inv p \<Longrightarrow> pipeline_inv (step e p)"
proof (cases e)
  case (Send r)
  assume "pipeline_inv p"
  then show ?thesis unfolding Send
    by (auto simp: pipeline_inv_def pending_def push_def split: option.splits)
next
  case (Serve resp)
  assume "pipeline_inv p"
  then show ?thesis unfolding Serve
    by (auto simp: pipeline_inv_def pending_def split: list.splits option.splits)
next
  case Deliver
  assume "pipeline_inv p"
  then show ?thesis unfolding Deliver
    by (auto simp: pipeline_inv_def pending_def take_next_def split: list.splits option.splits)
qed

lemma inv_run: "pipeline_inv p \<Longrightarrow> pipeline_inv (run evs p)"
  unfolding run_def by (induction evs arbitrary: p) (auto intro: inv_step)

subsection \<open>Order of the responses\<close>

text \<open>
  Claim C5.  Take one pipeline, of any in-flight capacity, and any interleaving of sends,
  answers of the peer and deliveries.  The futures emitted on \<open>Consumer\<close> so far, say
  \<open>N\<close> of them, are the futures of the first \<open>N\<close> requests queued, in the order the
  requests were queued; each carries the response the peer gave to its own request; and
  the queued requests are pairwise distinct by their tags.
\<close>

theorem pipeline_order:
  "map fst (Consumer (run evs (newNetPipeline cap))) =
     take (length (Consumer (run evs (newNetPipeline cap)))) (queued (run evs (newNetPipeline cap))) \<and>
   list_all (\<lambda>(f, a, resp). f = a) (Consumer (run evs (newNetPipeline cap))) \<and>
   map fst (queued (run evs (newNetPipeline cap))) = [0..<length (queued (run evs (newNetPipeline cap)))]"
proof -
  define p :: "('a, 'b) netPipeline" where "p = run evs (newNetPipeline cap)"
  have inv: "pipeline_inv p" unfolding p_def by (rule inv_run [OF inv_new])
  then have q: "map fst (Consumer p) @ pending p = queued p"
    and m: "list_all (\<lambda>(f, a, resp). f = a) (Consumer p)"
    and t: "map fst (queued p) = [0..<next_tag p]"
    unfolding pipeline_inv_def by blast+
  have "take (length (Consumer p)) (queued p) = map fst (Consumer p)"
    unfolding q [symmetric] by simp
  moreover from t have "length (queued p) = next_tag p"
    by (metis length_map length_upt minus_nat.diff_0)
  ultimately show ?thesis using m t by (simp add: p_def [symmetric])
qed

text \<open>Two sends on an unbuffered pipeline, each answered and delivered.\<close>

theorem pipeline_order_witness:
  "Consumer (run [Send CHR ''a'', Send CHR ''b'', Serve CHR ''x'', Deliver, Serve CHR ''y'', Deliver]
     (newNetPipeline 0 :: (char, char) netPipeline)) =
     [((0, CHR ''a''), (0, CHR ''a''), CHR ''x''), ((1, CHR ''b''), (1, CHR ''b''), CHR ''y'')] \<and>
   queued (run [Send CHR ''a'', Send CHR ''b'', Serve CHR ''x'', Deliver, Serve CHR ''y'', Deliver]
     (newNetPipeline 0 :: (char, char) netPipeline)) = [(0, CHR ''a''), (1, CHR ''b'')]"
  using pipeline_order
    [of "[Send CHR ''a'', Send CHR ''b'', Serve CHR ''x'', Deliver, Serve CHR ''y'', Deliver]
           :: (char, char) event list" 0]
  by (simp add: run_def newNetPipeline_def push_def take_next_def)

subsection \<open>The limit on requests in flight\<close>

lemma run_snoc: "run (evs @ [e]) p = step e (run evs p)"
  by (simp add: run_def)

lemma step_Send_free:
  assumes "blocked_push p = None"
  shows "step (Send r) p =
           push (next_tag p, r)
             (p\<lparr>conn_out := conn_out p @ [(next_tag p, r)],
                queued := queued p @ [(next_tag p, r)],
                next_tag := Suc (next_tag p)\<rparr>)"
  using assms by simp

lemma sends_state:
  fixes rs :: "'a list" and cap :: nat
  defines "p \<equiv> run (map Send rs) (newNetPipeline cap :: ('a, 'b) netPipeline)"
  assumes "length rs \<le> Suc cap"
  shows "blocked_push p = None \<and> inflight_cap p = cap \<and>
         length (inprogress p) = length rs - 1 \<and> (held p = None \<longleftrightarrow> rs = [])"
  using assms(2) unfolding p_def
proof (induction rs rule: rev_induct)
  case Nil
  then show ?case by (simp add: run_def newNetPipeline_def)
next
  case (snoc r rs)
  define q :: "('a, 'b) netPipeline" where "q = run (map Send rs) (newNetPipeline cap)"
  from snoc have IH: "blocked_push q = None" "inflight_cap q = cap"
    "length (inprogress q) = length rs - 1" "held q = None \<longleftrightarrow> rs = []"
    by (simp_all add: q_def)
  have r: "run (map Send (rs @ [r])) (newNetPipeline cap) = step (Send r) q"
    by (simp add: run_snoc q_def)
  show ?case
  proof (cases "rs = []")
    case True
    with IH show ?thesis unfolding r step_Send_free [OF IH(1)]
      by (simp add: push_def)
  next
    case False
    with snoc.prems have "length rs - 1 < cap" by (cases rs) auto
    with False IH show ?thesis unfolding r step_Send_free [OF IH(1)]
      by (auto simp: push_def)
  qed
qed

lemma send_blocks:
  fixes rs :: "'a list"
  assumes "length rs = Suc cap"
  shows "blocked_push (run (map Send (rs @ [r])) (newNetPipeline cap :: ('a, 'b) netPipeline)) \<noteq> None"
proof -
  define q :: "('a, 'b) netPipeline" where "q = run (map Send rs) (newNetPipeline cap)"
  from sends_state [of rs cap, where ?'b = 'b] assms
  have IH: "blocked_push q = None" "inflight_cap q = cap"
    "length (inprogress q) = cap" "held q \<noteq> None"
    by (auto simp: q_def)
  have r: "run (map Send (rs @ [r])) (newNetPipeline cap) = step (Send r) q"
    by (simp add: run_snoc q_def)
  from IH show ?thesis unfolding r step_Send_free [OF IH(1)]
    by (auto simp: push_def)
qed

lemma conn_sends:
  "conn_in (run (map Send rs) (newNetPipeline cap :: ('a, 'b) netPipeline)) = [] \<and>
   (rs \<noteq> [] \<longrightarrow> conn_out (run (map Send rs) (newNetPipeline cap :: ('a, 'b) netPipeline)) \<noteq> [] \<and>
                held (run (map Send rs) (newNetPipeline cap :: ('a, 'b) netPipeline)) \<noteq> None)"
proof (induction rs rule: rev_induct)
  case Nil
  then show ?case by (simp add: run_def newNetPipeline_def)
next
  case (snoc r rs)
  then show ?case
    by (cases "rs = []") (auto simp: run_snoc push_def newNetPipeline_def run_def)
qed

lemma deliver_unblocks:
  assumes "held p \<noteq> None" "conn_in p \<noteq> []"
  shows "blocked_push (step Deliver p) = None"
  using assms
  by (auto simp: take_next_def split: list.splits option.splits)

lemma answered_send_unblocks:
  fixes rs :: "'a list"
  assumes "rs \<noteq> []"
  shows "blocked_push (run (map Send rs @ [Serve x, Deliver])
           (newNetPipeline cap :: ('a, 'b) netPipeline)) = None"
proof -
  define q :: "('a, 'b) netPipeline" where "q = run (map Send rs) (newNetPipeline cap)"
  from conn_sends [of rs cap, where ?'b = 'b] assms
  have c: "conn_out q \<noteq> []" "held q \<noteq> None" by (auto simp: q_def)
  have "run (map Send rs @ [Serve x, Deliver]) (newNetPipeline cap) = step Deliver (step (Serve x) q)"
    by (simp add: run_def q_def)
  moreover from c have "held (step (Serve x) q) \<noteq> None" "conn_in (step (Serve x) q) \<noteq> []"
    by (auto split: list.splits)
  ultimately show ?thesis using deliver_unblocks [of "step (Serve x) q"] by simp
qed

lemma effective_max_ge: "M \<noteq> 1 \<Longrightarrow> 2 \<le> effective_max M"
  by (auto simp: effective_max_def)

text \<open>
  Claim C6 as stated fails.  With the in-flight channel of capacity
  \<open>max(MaxRPCsInFlight, 2)\<close> and \<open>MaxRPCsInFlight\<close> configured as 0, the effective limit
  is 2 and the pipeline opens with a channel of capacity 2, but the second unanswered send
  does not block.
\<close>

theorem pipeline_limit_counterexample:
  "AppendEntriesPipeline stated_capacity 0 =
     (Inr (newNetPipeline 2) :: error + (char, char) netPipeline) \<and>
   effective_max 0 = 2 \<and>
   blocked_push (run [Send CHR ''a'', Send CHR ''b'']
     (newNetPipeline 2 :: (char, char) netPipeline)) = None"
  by (simp add: AppendEntriesPipeline_def stated_capacity_def effective_max_def run_def
      newNetPipeline_def push_def)

text \<open>
  Claim C6, amended.  With \<open>MaxRPCsInFlight\<close> configured as 1 the call fails with
  \<open>ErrPipelineReplicationNotSupported\<close>; configured as 0 it opens the pipeline it opens for
  2.  For every other configuration the in-flight channel has capacity
  \<open>effective_max M - 2\<close>, the receiver holding one more future and the sender one; of
  \<open>k\<close> unanswered sends, \<open>k\<close> at most the effective limit, the last one blocks exactly
  when \<open>k\<close> equals the effective limit, and one answer of the peer, delivered, unblocks
  it.
\<close>

theorem pipeline_limit:
  "AppendEntriesPipeline tested_capacity 1 =
     (Inl ErrPipelineReplicationNotSupported :: error + ('a, 'b) netPipeline) \<and>
   AppendEntriesPipeline tested_capacity 0 =
     (AppendEntriesPipeline tested_capacity 2 :: error + ('a, 'b) netPipeline) \<and>
   (M \<noteq> 1 \<longrightarrow>
      AppendEntriesPipeline tested_capacity M =
        (Inr (newNetPipeline (effective_max M - 2)) :: error + ('a, 'b) netPipeline) \<and>
      (\<forall>rs :: 'a list. length rs \<le> effective_max M \<longrightarrow>
         (blocked_push (run (map Send rs)
            (newNetPipeline (effective_max M - 2) :: ('a, 'b) netPipeline)) \<noteq> None
          \<longleftrightarrow> length rs = effective_max M)) \<and>
      (\<forall>(rs :: 'a list) x. length rs = effective_max M \<longrightarrow>
         blocked_push (run (map Send rs @ [Serve x, Deliver])
            (newNetPipeline (effective_max M - 2) :: ('a, 'b) netPipeline)) = None))"
proof (intro conjI impI allI)
  show "AppendEntriesPipeline tested_capacity 1 =
     (Inl ErrPipelineReplicationNotSupported :: error + ('a, 'b) netPipeline)"
    by (simp add: AppendEntriesPipeline_def effective_max_def)
  show "AppendEntriesPipeline tested_capacity 0 =
     (AppendEntriesPipeline tested_capacity 2 :: error + ('a, 'b) netPipeline)"
    by (simp add: AppendEntriesPipeline_def effective_max_def tested_capacity_def)
next
  assume "M \<noteq> 1"
  from effective_max_ge [OF this]
  show "AppendEntriesPipeline tested_capacity M =
        (Inr (newNetPipeline (effective_max M - 2)) :: error + ('a, 'b) netPipeline)"
    by (simp add: AppendEntriesPipeline_def tested_capacity_def)
next
  fix rs :: "'a list"
  assume M: "M \<noteq> 1" and len: "length rs \<le> effective_max M"
  note ge = effective_max_ge [OF M]
  show "blocked_push (run (map Send rs)
            (newNetPipeline (effective_max M - 2) :: ('a, 'b) netPipeline)) \<noteq> None
          \<longleftrightarrow> length rs = effective_max M"
  proof (cases "length rs = effective_max M")
    case True
    with ge obtain rs' r where rs: "rs = rs' @ [r]"
      by (cases rs rule: rev_cases) auto
    with True ge have "length rs' = Suc (effective_max M - 2)" by simp
    from send_blocks [OF this, of r, where ?'b = 'b] True show ?thesis by (simp add: rs)
  next
    case False
    with len ge have "length rs \<le> Suc (effective_max M - 2)" by simp
    from sends_state [OF this, where ?'b = 'b] False show ?thesis by simp
  qed
next
  fix rs :: "'a list" and x :: 'b
  assume M: "M \<noteq> 1" and len: "length rs = effective_max M"
  with effective_max_ge [OF M] have "rs \<noteq> []" by auto
  then show "blocked_push (run (map Send rs @ [Serve x, Deliver])
            (newNetPipeline (effective_max M - 2) :: ('a, 'b) netPipeline)) = None"
    by (rule answered_send_unblocks)
qed

text \<open>The default configuration: the second send blocks until the first is answered.\<close>

theorem pipeline_limit_witness:
  "AppendEntriesPipeline tested_capacity 0 =
     (Inr (newNetPipeline 0) :: error + (char, char) netPipeline) \<and>
   blocked_push (run [Send CHR ''a''] (newNetPipeline 0 :: (char, char) netPipeline)) = None \<and>
   blocked_push (run [Send CHR ''a'', Send CHR ''b'']
     (newNetPipeline 0 :: (char, char) netPipeline)) \<noteq> None \<and>
   blocked_push (run [Send CHR ''a'', Send CHR ''b'', Serve CHR ''x'', Deliver]
     (newNetPipeline 0 :: (char, char) netPipeline)) = None"
proof -
  have e: "effective_max 0 = 2" by (simp add: effective_max_def)
  have z: "(0::nat) \<noteq> 1" by simp
  note t = pipeline_limit [of 0, where ?'a = char and ?'b = char,
      THEN conjunct2, THEN conjunct2, THEN mp, OF z, unfolded e]
  from t [THEN conjunct1] have a: "AppendEntriesPipeline tested_capacity 0 =
     (Inr (newNetPipeline 0) :: error + (char, char) netPipeline)" by simp
  from t [THEN conjunct2, THEN conjunct1] have b: "\<And>rs :: char list. length rs \<le> 2 \<Longrightarrow>
         (blocked_push (run (map Send rs) (newNetPipeline 0 :: (char, char) netPipeline)) \<noteq> None
          \<longleftrightarrow> length rs = 2)" by simp
  from t [THEN conjunct2, THEN conjunct2] have c: "\<And>(rs :: char list) x. length rs = 2 \<Longrightarrow>
         blocked_push (run (map Send rs @ [Serve x, Deliver])
            (newNetPipeline 0 :: (char, char) netPipeline)) = None" by simp
  from a b [of "[CHR ''a'']"] b [of "[CHR ''a'', CHR ''b'']"]
       c [of "[CHR ''a'', CHR ''b'']" "CHR ''x''"]
  show ?thesis by (simp del: not_None_eq)
qed

end
